theory Spec2Isabelle
  imports Main "HOL-Library.Log_Nat" "HOL-Library.Code_Target_Nat"
begin

section \<open>Face attendance system: the Flask application \<open>webtopy.py\<close>\<close>

text \<open>
  The application keeps one table \<open>User\<close> and serves the routes \<open>/register\<close>,
  \<open>/recognize\<close>, \<open>/admin/users\<close>, \<open>/admin/user/<reg_no>\<close>, \<open>/export\<close> and \<open>/status\<close>.
  The table is a list of rows in row order; every route is a function from the table (and
  the request, the clock and the random draws) to a response and the committed table.
\<close>

subsection \<open>Python strings\<close>

text \<open>
  A Python \<open>str\<close> is a list of code points. \<open>lit\<close> turns an ASCII literal into one.
\<close>

type_synonym ustr = "nat list"

definition lit :: "string \<Rightarrow> ustr" where
  "lit s = map of_char s"

definition is_ascii :: "ustr \<Rightarrow> bool" where
  "is_ascii s = list_all (\<lambda>c. c < 128) s"

text \<open>
  \<open>str.isspace\<close> of one code point, which \<open>str.strip()\<close>, \<open>str.split()\<close> and the
  regular-expression class \<open>\s\<close> all use.
\<close>

definition py_isspace :: "nat \<Rightarrow> bool" where
  "py_isspace c = ((9 \<le> c \<and> c \<le> 13) \<or> (28 \<le> c \<and> c \<le> 32) \<or> c = 133 \<or> c = 160
      \<or> c = 5760 \<or> (8192 \<le> c \<and> c \<le> 8202) \<or> c = 8232 \<or> c = 8233 \<or> c = 8239
      \<or> c = 8287 \<or> c = 12288)"

definition py_strip :: "ustr \<Rightarrow> ustr" where
  "py_strip s = rev (dropWhile py_isspace (rev (dropWhile py_isspace s)))"

text \<open>\<open>s.split()\<close>: the maximal runs of non-whitespace; \<open>cur\<close> is the run being read.\<close>

fun split_ws :: "ustr \<Rightarrow> ustr \<Rightarrow> ustr list" where
  "split_ws cur [] = (if cur = [] then [] else [cur])"
| "split_ws cur (c # cs) =
     (if py_isspace c then (if cur = [] then [] else [cur]) @ split_ws [] cs
      else split_ws (cur @ [c]) cs)"

definition py_split :: "ustr \<Rightarrow> ustr list" where
  "py_split s = split_ws [] s"

text \<open>\<open>s.split(sep)\<close> for a one-character separator: empty fields are kept.\<close>

fun split_on :: "nat \<Rightarrow> ustr \<Rightarrow> ustr list" where
  "split_on sep [] = [[]]"
| "split_on sep (c # cs) =
     (if c = sep then [] # split_on sep cs
      else (case split_on sep cs of [] \<Rightarrow> [[c]] | w # ws \<Rightarrow> (c # w) # ws))"

text \<open>\<open>xs[i]\<close> raises \<open>IndexError\<close> out of range: \<open>None\<close> here.\<close>

definition nth_opt :: "'a list \<Rightarrow> nat \<Rightarrow> 'a option" where
  "nth_opt xs i = (if i < length xs then Some (xs ! i) else None)"

fun join :: "ustr \<Rightarrow> ustr list \<Rightarrow> ustr" where
  "join sep [] = []"
| "join sep [x] = x"
| "join sep (x # y # ys) = x @ sep @ join sep (y # ys)"

text \<open>\<open>str(n)\<close> of an integer, and \<open>str.zfill\<close>.\<close>

fun str_nat :: "nat \<Rightarrow> ustr" where
  "str_nat n = (if n < 10 then [48 + n] else str_nat (n div 10) @ [48 + n mod 10])"

declare str_nat.simps [simp del]

definition str_int :: "int \<Rightarrow> ustr" where
  "str_int i = (if i < 0 then 45 # str_nat (nat (- i)) else str_nat (nat i))"

definition zfill :: "nat \<Rightarrow> ustr \<Rightarrow> ustr" where
  "zfill width s =
     (if width \<le> length s then s
      else (case s of
              c # cs \<Rightarrow> if c = 43 \<or> c = 45 then c # replicate (width - length s) 48 @ cs
                        else replicate (width - length s) 48 @ s
            | [] \<Rightarrow> replicate width 48))"

definition ascii_lower :: "nat \<Rightarrow> nat" where
  "ascii_lower c = (if 65 \<le> c \<and> c \<le> 90 then c + 32 else c)"

text \<open>
  SQLite's \<open>lower()\<close> folds the ASCII letters only, and its \<open>LIKE\<close> compares ASCII letters
  without case. The one pattern of the program is a literal prefix followed by \<open>%\<close>.
\<close>

definition sql_lower :: "ustr \<Rightarrow> ustr" where
  "sql_lower s = map ascii_lower s"

definition sql_like_prefix :: "ustr \<Rightarrow> ustr \<Rightarrow> bool" where
  "sql_like_prefix p s = (map ascii_lower (take (length p) s) = map ascii_lower p)"

subsection \<open>The Unicode tables of the Python library\<close>

text \<open>
  On ASCII text \<open>str.lower()\<close>, \<open>unicodedata.normalize('NFD', _)\<close>, \<open>int(_)\<close> and
  \<open>datetime.strptime(_, '%Y-%m-%d')\<close> are defined below. On text with a code point beyond
  ASCII they consult the Unicode character database, which is not part of the program:
  those four behaviours are the parameter \<open>U\<close> of everything that follows.
\<close>

record unicode_lib =
  unicode_lower :: "ustr \<Rightarrow> ustr"
  unicode_nfd :: "ustr \<Rightarrow> ustr"
  unicode_int :: "ustr \<Rightarrow> int option"
  unicode_strptime :: "ustr \<Rightarrow> (int \<times> int \<times> int) option"

definition py_lower :: "unicode_lib \<Rightarrow> ustr \<Rightarrow> ustr" where
  "py_lower U s = (if is_ascii s then map ascii_lower s else unicode_lower U s)"

definition py_nfd :: "unicode_lib \<Rightarrow> ustr \<Rightarrow> ustr" where
  "py_nfd U s = (if is_ascii s then s else unicode_nfd U s)"

text \<open>
  \<open>int(s)\<close> in base 10 on ASCII text: optional blanks, an optional sign, digits with single
  underscores between them, optional blanks. \<open>None\<close> is \<open>ValueError\<close>. \<open>scan_digits\<close>
  carries the previous character, as the C scanner does; it starts at an underscore, which
  rejects the empty string and a leading underscore.
\<close>

definition c_isspace :: "nat \<Rightarrow> bool" where
  "c_isspace c = ((9 \<le> c \<and> c \<le> 13) \<or> c = 32)"

definition is_digit :: "nat \<Rightarrow> bool" where
  "is_digit c = (48 \<le> c \<and> c \<le> 57)"

fun scan_digits :: "nat \<Rightarrow> ustr \<Rightarrow> bool" where
  "scan_digits prev [] = (prev \<noteq> 95)"
| "scan_digits prev (c # cs) =
     (if c = 95 then prev \<noteq> 95 \<and> scan_digits c cs else is_digit c \<and> scan_digits c cs)"

definition digits_value :: "ustr \<Rightarrow> nat" where
  "digits_value s = foldl (\<lambda>acc c. acc * 10 + (c - 48)) 0 (filter is_digit s)"

definition int_ascii :: "ustr \<Rightarrow> int option" where
  "int_ascii s =
     (let s1 = dropWhile c_isspace s;
          negative = (s1 \<noteq> [] \<and> hd s1 = 45);
          s2 = (if s1 \<noteq> [] \<and> (hd s1 = 43 \<or> hd s1 = 45) then tl s1 else s1);
          body = takeWhile (\<lambda>c. is_digit c \<or> c = 95) s2;
          rest = dropWhile (\<lambda>c. is_digit c \<or> c = 95) s2
      in if scan_digits 95 body \<and> list_all c_isspace rest
         then Some (if negative then - int (digits_value body) else int (digits_value body))
         else None)"

definition py_int :: "unicode_lib \<Rightarrow> ustr \<Rightarrow> int option" where
  "py_int U s = (if is_ascii s then int_ascii s else unicode_int U s)"

subsection \<open>The calendar of the Python library\<close>

text \<open>
  \<open>calendar.monthrange\<close> and \<open>datetime.date(...).weekday()\<close>, from the pure-Python sources
  of the library: the proleptic Gregorian ordinal of a date, with Monday as day 0.
\<close>

datatype py_error = IllegalMonthError | ValueError | IntegrityError

definition isleap :: "int \<Rightarrow> bool" where
  "isleap year = (year mod 4 = 0 \<and> (year mod 100 \<noteq> 0 \<or> year mod 400 = 0))"

definition mdays :: "int list" where
  "mdays = [0, 31, 28, 31, 30, 31, 30, 31, 31, 30, 31, 30, 31]"

definition days_before_month_tbl :: "int list" where
  "days_before_month_tbl = [0, 0, 31, 59, 90, 120, 151, 181, 212, 243, 273, 304, 334]"

definition days_in_month :: "int \<Rightarrow> int \<Rightarrow> int" where
  "days_in_month year month =
     mdays ! nat month + (if month = 2 \<and> isleap year then 1 else 0)"

definition days_before_year :: "int \<Rightarrow> int" where
  "days_before_year year =
     (let y = year - 1 in y * 365 + y div 4 - y div 100 + y div 400)"

definition days_before_month :: "int \<Rightarrow> int \<Rightarrow> int" where
  "days_before_month year month =
     days_before_month_tbl ! nat month + (if month > 2 \<and> isleap year then 1 else 0)"

definition ymd2ord :: "int \<Rightarrow> int \<Rightarrow> int \<Rightarrow> int" where
  "ymd2ord year month day = days_before_year year + days_before_month year month + day"

definition weekday :: "int \<Rightarrow> int \<Rightarrow> int \<Rightarrow> int" where
  "weekday year month day = (ymd2ord year month day + 6) mod 7"

text \<open>
  \<open>datetime.strptime(s, '%Y-%m-%d').date()\<close> on ASCII text. The format compiles to the
  regular expression \<open>(\d\d\d\d)-(1[0-2]|0[1-9]|[1-9])-(3[01]|[12]\d|0[1-9]|[1-9]| [1-9])\<close>;
  the alternatives are tried in this order, the first match is taken, text left over after
  it is an error, and so is a date that does not exist.
\<close>

definition month_alts :: "ustr \<Rightarrow> (int \<times> ustr) list" where
  "month_alts r =
     (case r of
        [] \<Rightarrow> []
      | a # t \<Rightarrow>
          (case t of
             [] \<Rightarrow> []
           | b # t' \<Rightarrow>
               (if a = 49 \<and> 48 \<le> b \<and> b \<le> 50 then [(10 + int (b - 48), t')] else []) @
               (if a = 48 \<and> 49 \<le> b \<and> b \<le> 57 then [(int (b - 48), t')] else [])) @
          (if 49 \<le> a \<and> a \<le> 57 then [(int (a - 48), t)] else []))"

definition day_alts :: "ustr \<Rightarrow> (int \<times> ustr) list" where
  "day_alts r =
     (case r of
        [] \<Rightarrow> []
      | a # t \<Rightarrow>
          (case t of
             [] \<Rightarrow> []
           | b # t' \<Rightarrow>
               (if a = 51 \<and> 48 \<le> b \<and> b \<le> 49 then [(30 + int (b - 48), t')] else []) @
               (if 49 \<le> a \<and> a \<le> 50 \<and> is_digit b
                then [(10 * int (a - 48) + int (b - 48), t')] else []) @
               (if a = 48 \<and> 49 \<le> b \<and> b \<le> 57 then [(int (b - 48), t')] else [])) @
          (if 49 \<le> a \<and> a \<le> 57 then [(int (a - 48), t)] else []) @
          (case t of
             [] \<Rightarrow> []
           | b # t' \<Rightarrow> if a = 32 \<and> 49 \<le> b \<and> b \<le> 57 then [(int (b - 48), t')] else []))"

definition strptime_ascii :: "ustr \<Rightarrow> (int \<times> int \<times> int) option" where
  "strptime_ascii s =
     (if length s < 5 \<or> \<not> list_all is_digit (take 4 s) \<or> s ! 4 \<noteq> 45 then None
      else
        let year = int (digits_value (take 4 s));
            matches = concat (map (\<lambda>(m, r).
                        if r \<noteq> [] \<and> hd r = 45 then map (\<lambda>(d, r'). (m, d, r')) (day_alts (tl r))
                        else [])
                      (month_alts (drop 5 s)))
        in (case matches of
              [] \<Rightarrow> None
            | (month, day, rest) # _ \<Rightarrow>
                if rest = [] \<and> 1 \<le> year \<and> day \<le> days_in_month year month
                then Some (year, month, day) else None))"

definition py_strptime :: "unicode_lib \<Rightarrow> ustr \<Rightarrow> (int \<times> int \<times> int) option" where
  "py_strptime U s = (if is_ascii s then strptime_ascii s else unicode_strptime U s)"

subsection \<open>Python floats\<close>

text \<open>
  A \<open>float\<close> is the rational it denotes. \<open>fl\<close> rounds a rational to the nearest binary64
  number, ties to even: 53 significant bits, subnormal below \<open>2 ^ -1022\<close>. Overflow to
  infinity is not modelled; the quotients and products of the program stay far below it,
  the integers of the table being 64-bit.
  \<open>round(x, 1)\<close> and the format \<open>.1f\<close> round the exact value of \<open>x\<close> to one decimal,
  ties to even; \<open>round\<close> then returns the binary64 number nearest to that decimal.
\<close>

definition round_half_even :: "rat \<Rightarrow> int" where
  "round_half_even x =
     (let f = \<lfloor>x\<rfloor>; r = x - of_int f
      in if r < 1 / 2 then f else if 1 / 2 < r then f + 1 else if even f then f else f + 1)"

definition ilog2 :: "rat \<Rightarrow> int" where
  "ilog2 x = (if 1 \<le> x then bitlen \<lfloor>x\<rfloor> - 1 else - bitlen (\<lceil>1 / x\<rceil> - 1))"

definition pow2 :: "int \<Rightarrow> rat" where
  "pow2 e = (if 0 \<le> e then 2 ^ nat e else 1 / 2 ^ nat (- e))"

definition fl :: "rat \<Rightarrow> rat" where
  "fl x =
     (if x = 0 then 0
      else let e = max (ilog2 \<bar>x\<bar>) (- 1022); q = pow2 (e - 52)
           in of_int (round_half_even (x / q)) * q)"

definition fdiv :: "int \<Rightarrow> int \<Rightarrow> rat" where
  "fdiv a b = fl (of_int a / of_int b)"

definition fmul :: "rat \<Rightarrow> rat \<Rightarrow> rat" where
  "fmul x y = fl (x * y)"

definition py_round1 :: "rat \<Rightarrow> rat" where
  "py_round1 x = fl (of_int (round_half_even (x * 10)) / 10)"

definition format_1f :: "rat \<Rightarrow> ustr" where
  "format_1f x =
     (let n = nat \<bar>round_half_even (x * 10)\<bar>
      in (if x < 0 then [45] else []) @ str_nat (n div 10) @ [46] @ str_nat (n mod 10))"

subsection \<open>The table \<open>User\<close>\<close>

text \<open>
  One row of the table. \<open>user_id\<close> is the column \<open>id\<close>; a date is (year, month, day);
  the nullable text columns are options.
\<close>

record user =
  user_id :: int
  reg_no :: ustr
  name :: ustr
  dob :: "int \<times> int \<times> int"
  gender :: ustr
  email :: ustr
  attendance_count :: int
  leaves_taken :: int
  last_leave_month :: "ustr option"
  messages :: "ustr option"
  face_image :: ustr

text \<open>\<open>User.age\<close>, with \<open>date.today()\<close> as an argument.\<close>

definition age :: "int \<times> int \<times> int \<Rightarrow> user \<Rightarrow> int" where
  "age today u =
     (case (today, dob u) of
        ((ty, tm, td), (by, bm, bd)) \<Rightarrow>
          ty - by - (if tm < bm \<or> (tm = bm \<and> td < bd) then 1 else 0))"

text \<open>
  The error responses of the routes, and an exception that no handler catches
  (status 500).
\<close>

datatype error =
    MissingRequiredFields
  | NameAlreadyRegistered ustr
  | InvalidDateOfBirth
  | EmailAlreadyRegistered ustr
  | EmailMissing
  | NoUserWithEmail
  | UserNotFound
  | Diverges
  | Uncaught py_error

fun http_status :: "error \<Rightarrow> nat" where
  "http_status MissingRequiredFields = 400"
| "http_status (NameAlreadyRegistered n) = 400"
| "http_status InvalidDateOfBirth = 400"
| "http_status (EmailAlreadyRegistered e) = 400"
| "http_status EmailMissing = 400"
| "http_status NoUserWithEmail = 404"
| "http_status UserNotFound = 404"
| "http_status Diverges = 500"
| "http_status (Uncaught e) = 500"

text \<open>The row SQLite gives a new row: one more than the largest id in use.\<close>

definition next_id :: "user list \<Rightarrow> int" where
  "next_id db = fold max (map user_id db) 0 + 1"

fun first_index :: "('a \<Rightarrow> bool) \<Rightarrow> 'a list \<Rightarrow> nat option" where
  "first_index P [] = None"
| "first_index P (x # xs) = (if P x then Some 0 else map_option Suc (first_index P xs))"

subsection \<open>Helper functions\<close>

text \<open>
  \<open>generate_next_reg_no\<close>, with \<open>datetime.now().year\<close> as an argument. \<open>reg_suffix\<close> is
  the expression \<open>int(u.reg_no.split('-')[2])\<close> of the \<open>try\<close>: \<open>None\<close> when it raises
  (\<open>IndexError\<close> or \<open>ValueError\<close>), which the bare \<open>except\<close> turns into \<open>continue\<close>.
  \<open>scan_max_suffix\<close> is the \<open>for\<close> loop of lines 41 to 48.
\<close>

definition reg_suffix :: "unicode_lib \<Rightarrow> ustr \<Rightarrow> int option" where
  "reg_suffix U r =
     (case nth_opt (split_on 45 r) 2 of None \<Rightarrow> None | Some s \<Rightarrow> py_int U s)"

definition scan_max_suffix :: "unicode_lib \<Rightarrow> user list \<Rightarrow> int" where
  "scan_max_suffix U users =
     fold (\<lambda>u max_suffix.
             case reg_suffix U (reg_no u) of
               None \<Rightarrow> max_suffix
             | Some suffix \<Rightarrow> if suffix > max_suffix then suffix else max_suffix)
          users 0"

definition generate_next_reg_no :: "unicode_lib \<Rightarrow> int \<Rightarrow> user list \<Rightarrow> ustr" where
  "generate_next_reg_no U year db =
     (let code = lit ''XYZ'';
          users = filter (\<lambda>u. sql_like_prefix (str_int year @ lit ''-'' @ code @ lit ''-'')
                                 (reg_no u)) db;
          max_suffix = scan_max_suffix U users;
          next_suffix = max_suffix + 1
      in str_int year @ lit ''-'' @ code @ lit ''-'' @ zfill 4 (str_int next_suffix))"

text \<open>
  \<open>generate_email\<close>. The \<open>while\<close> loop has no bound of its own, so it is a partial
  function: \<open>None\<close> means that it runs forever.
\<close>

partial_function (option) email_loop ::
  "unicode_lib \<Rightarrow> ustr list \<Rightarrow> ustr list \<Rightarrow> ustr \<Rightarrow> nat \<Rightarrow> ustr option" where
  "email_loop U existing_emails parts email_candidate counter =
     (if py_lower U email_candidate \<in> set existing_emails
      then email_loop U existing_emails parts
             (if length parts = 1
              then parts ! 0 @ str_nat counter @ lit ''@company.com''
              else parts ! 0 @ lit ''.'' @ last parts @ str_nat counter @ lit ''@company.com'')
             (counter + 1)
      else Some email_candidate)"

declare email_loop.simps [code]

definition normalize_name :: "unicode_lib \<Rightarrow> ustr \<Rightarrow> ustr list" where
  "normalize_name U name' =
     (let normalized = py_lower U (py_strip name');
          normalized = py_nfd U normalized;
          normalized = filter (\<lambda>c. c < 128) normalized;
          normalized = filter (\<lambda>c. (97 \<le> c \<and> c \<le> 122) \<or> py_isspace c) normalized
      in py_split normalized)"

definition generate_email :: "unicode_lib \<Rightarrow> user list \<Rightarrow> ustr \<Rightarrow> ustr option" where
  "generate_email U db name' =
     (if name' = [] then Some []
      else
        let parts = normalize_name U name'
        in if length parts = 0 then Some []
           else
             let base_email =
                   (if length parts = 1 then parts ! 0 @ lit ''@company.com''
                    else parts ! 0 @ lit ''.'' @ last parts @ lit ''@company.com'');
                 existing_emails = map (\<lambda>u. py_lower U (email u)) db
             in email_loop U existing_emails parts base_email 1)"

text \<open>
  \<open>get_working_days_in_month\<close>. \<open>monthrange\<close> raises for a month outside 1..12 and
  \<open>date\<close> for a year outside 1..9999.
\<close>

definition get_working_days_in_month :: "int \<Rightarrow> int \<Rightarrow> py_error + int" where
  "get_working_days_in_month year month =
     (if \<not> (1 \<le> month \<and> month \<le> 12) then Inl IllegalMonthError
      else if \<not> (1 \<le> year \<and> year \<le> 9999) then Inl ValueError
      else Inr (fold (\<lambda>day count. if weekday year month day < 5 then count + 1 else count)
                  [1..days_in_month year month] 0))"

subsection \<open>Routes\<close>

text \<open>
  \<open>register\<close>. The request body is the four fields, an absent one being empty;
  \<open>datetime.now().year\<close> is an argument. The commit refuses a row that breaks a
  \<open>unique\<close> column (\<open>IntegrityError\<close>, which nothing catches).
\<close>

record register_request =
  req_name :: ustr
  req_dob :: ustr
  req_gender :: ustr
  req_face_image :: ustr

record register_response =
  resp_reg_no :: ustr
  resp_email :: ustr
  resp_name :: ustr

definition register ::
  "unicode_lib \<Rightarrow> int \<Rightarrow> user list \<Rightarrow> register_request \<Rightarrow>
     error + (register_response \<times> user list)" where
  "register U year db data =
     (let name' = py_strip (req_name data);
          dob_str = py_strip (req_dob data);
          gender' = py_strip (req_gender data);
          face_image' = py_strip (req_face_image data)
      in if name' = [] \<or> dob_str = [] \<or> gender' = [] \<or> face_image' = []
         then Inl MissingRequiredFields
         else if \<exists>u \<in> set db. sql_lower (name u) = py_lower U name'
         then Inl (NameAlreadyRegistered name')
         else
           (case py_strptime U dob_str of
              None \<Rightarrow> Inl InvalidDateOfBirth
            | Some dob' \<Rightarrow>
                (case generate_email U db name' of
                   None \<Rightarrow> Inl Diverges
                 | Some email' \<Rightarrow>
                     if \<exists>u \<in> set db. sql_lower (email u) = py_lower U email'
                     then Inl (EmailAlreadyRegistered email')
                     else
                       let reg_no' = generate_next_reg_no U year db;
                           user = \<lparr>user_id = next_id db, reg_no = reg_no', name = name',
                                   dob = dob', gender = gender', email = email',
                                   attendance_count = 0, leaves_taken = 0,
                                   last_leave_month = None, messages = Some [],
                                   face_image = face_image'\<rparr>
                       in if \<exists>u \<in> set db. reg_no u = reg_no' \<or> email u = email'
                          then Inl (Uncaught IntegrityError)
                          else Inr (\<lparr>resp_reg_no = reg_no', resp_email = email',
                                     resp_name = name'\<rparr>,
                                    db @ [user]))))"

text \<open>
  A sequence of registration requests served one after the other in the same year: the
  registration numbers handed out, in order, and the table left at the end. A request that
  is refused hands out no number and leaves the table as it was.
\<close>

fun register_seq ::
  "unicode_lib \<Rightarrow> int \<Rightarrow> user list \<Rightarrow> register_request list \<Rightarrow> ustr list \<times> user list" where
  "register_seq U year db [] = ([], db)"
| "register_seq U year db (data # rest) =
     (case register U year db data of
        Inl e \<Rightarrow> register_seq U year db rest
      | Inr (resp, db') \<Rightarrow>
          (case register_seq U year db' rest of
             (reg_nos, db'') \<Rightarrow> (resp_reg_no resp # reg_nos, db'')))"

text \<open>
  \<open>recognize\<close>. \<open>rnd\<close> is the value of \<open>random.random()\<close> and \<open>choice\<close> the index
  that \<open>random.choice\<close> draws, which is below the number of rows.
\<close>

datatype recognize_response =
    Recognized ustr ustr int ustr
  | NotRecognized ustr

definition recognize :: "user list \<Rightarrow> rat \<Rightarrow> nat \<Rightarrow> recognize_response \<times> user list" where
  "recognize db rnd choice =
     (if db = [] then (NotRecognized (lit ''No users registered yet.''), db)
      else if rnd < 1 / 2 then
        let user = (db ! choice)\<lparr>attendance_count := attendance_count (db ! choice) + 1\<rparr>
        in (Recognized (reg_no user) (name user) (attendance_count user)
              (lit ''Recognized '' @ name user @ lit '' ('' @ reg_no user
                 @ lit ''). Attendance incremented.''),
            db[choice := user])
      else (NotRecognized (lit ''Face not recognized. Please register.''), db))"

text \<open>
  \<open>admin_users\<close> and \<open>admin_user\<close>, with \<open>date.today()\<close> as an argument. The routes
  \<open>index\<close> and \<open>export_excel\<close> read the table and write nothing.
\<close>

record user_info =
  info_reg_no :: ustr
  info_name :: ustr
  info_age :: int
  info_gender :: ustr
  info_email :: ustr
  info_attendance_count :: int

definition info_of :: "int \<times> int \<times> int \<Rightarrow> user \<Rightarrow> user_info" where
  "info_of today u =
     \<lparr>info_reg_no = reg_no u, info_name = name u, info_age = age today u,
      info_gender = gender u, info_email = email u,
      info_attendance_count = attendance_count u\<rparr>"

definition admin_users :: "int \<times> int \<times> int \<Rightarrow> user list \<Rightarrow> user_info list \<times> user list" where
  "admin_users today db = (map (info_of today) db, db)"

datatype http_method = GET | DELETE

datatype admin_response = UserInfo user_info | UserDeleted ustr

definition admin_user ::
  "int \<times> int \<times> int \<Rightarrow> user list \<Rightarrow> http_method \<Rightarrow> ustr \<Rightarrow>
     error + (admin_response \<times> user list)" where
  "admin_user today db method reg_no' =
     (case find (\<lambda>u. reg_no u = reg_no') db of
        None \<Rightarrow> Inl UserNotFound
      | Some user \<Rightarrow>
          (case method of
             GET \<Rightarrow> Inr (UserInfo (info_of today user), db)
           | DELETE \<Rightarrow>
               Inr (UserDeleted (lit ''User '' @ reg_no' @ lit '' deleted.''),
                    remove1 user db)))"

text \<open>
  \<open>check_status\<close>, with the year and the month of \<open>datetime.now()\<close> as arguments. It
  commits twice when the month has changed and once otherwise: the result carries the table
  as it stands after each commit, in order, so the last one is the table the route leaves.
  \<open>attendance_percent\<close> is the assignment of lines 241 to 243 and \<open>advisory_messages\<close>
  the list that lines 245 to 253 build.
\<close>

record status_response =
  status_name :: ustr
  status_attendance_count :: int
  status_leaves_taken :: int
  status_attendance_percent :: rat
  status_messages :: "ustr list"

definition attendance_percent :: "int \<Rightarrow> int \<Rightarrow> rat" where
  "attendance_percent working_days leaves_taken' =
     (if working_days > 0
      then max 0 (fmul (fdiv (working_days - leaves_taken') working_days) 100)
      else 100)"

definition advisory_messages :: "int \<Rightarrow> rat \<Rightarrow> ustr list" where
  "advisory_messages leaves_taken' percent =
     (let messages' = [];
          messages' =
            (if leaves_taken' > 2
             then messages' @ [lit ''Alert: You have taken more than 2 leaves (''
                    @ str_int leaves_taken' @ lit '') this month.'']
             else messages');
          messages' =
            (if percent < 90
             then messages' @ [lit ''Warning: Your attendance is below 90% (''
                    @ format_1f percent @ lit ''%).'']
             else messages');
          messages' =
            (if percent = 100
             then messages' @ [lit ''Great job! You have 100% attendance this month.'']
             else messages');
          messages' =
            (if messages' = []
             then messages' @ [lit ''Your attendance and leave status are within acceptable limits.'']
             else messages')
      in messages')"

definition check_status ::
  "unicode_lib \<Rightarrow> int \<Rightarrow> int \<Rightarrow> user list \<Rightarrow> ustr \<Rightarrow>
     error + (status_response \<times> user list list)" where
  "check_status U year month db email_field =
     (let email' = py_lower U (py_strip email_field)
      in if email' = [] then Inl EmailMissing
         else
           (case first_index (\<lambda>u. sql_lower (email u) = email') db of
              None \<Rightarrow> Inl NoUserWithEmail
            | Some i \<Rightarrow>
                (case get_working_days_in_month year month of
                   Inl e \<Rightarrow> Inl (Uncaught e)
                 | Inr working_days \<Rightarrow>
                     let user = db ! i;
                         current_month_str = str_int year @ lit ''-'' @ str_int month;
                         rollover = (last_leave_month user \<noteq> Some current_month_str);
                         user = (if rollover
                                 then user\<lparr>leaves_taken := 0,
                                           last_leave_month := Some current_month_str\<rparr>
                                 else user);
                         commits = (if rollover then [db[i := user]] else []);
                         attendance_count' = attendance_count user;
                         leaves_taken' = leaves_taken user;
                         percent = attendance_percent working_days leaves_taken';
                         messages' = advisory_messages leaves_taken' percent;
                         user = user\<lparr>messages := Some (join (lit '' | '') messages')\<rparr>;
                         commits = commits @ [db[i := user]]
                     in Inr (\<lparr>status_name = name user,
                               status_attendance_count = attendance_count',
                               status_leaves_taken = leaves_taken',
                               status_attendance_percent = py_round1 percent,
                               status_messages = messages'\<rparr>,
                             commits))))"

text \<open>
  The tables that the routes can produce from the empty table that \<open>db.create_all()\<close>
  makes. A request that fails writes nothing.
\<close>

inductive reachable :: "unicode_lib \<Rightarrow> user list \<Rightarrow> bool" for U :: unicode_lib where
  reachable_init: "reachable U []"
| reachable_register:
    "reachable U db \<Longrightarrow> register U year db data = Inr (resp, db') \<Longrightarrow> reachable U db'"
| reachable_recognize:
    "reachable U db \<Longrightarrow> choice < length db \<Longrightarrow> recognize db rnd choice = (rresp, db')
       \<Longrightarrow> reachable U db'"
| reachable_delete:
    "reachable U db \<Longrightarrow> admin_user today db DELETE r = Inr (aresp, db') \<Longrightarrow> reachable U db'"
| reachable_status:
    "reachable U db \<Longrightarrow> check_status U year month db e = Inr (sresp, commits)
       \<Longrightarrow> db' \<in> set commits \<Longrightarrow> reachable U db'"

subsection \<open>Example data\<close>

text \<open>
  A fragment of the Unicode tables, enough for the examples: the lower case of U+00C9
  (E with acute) is U+00E9, whose canonical decomposition is U+0065 U+0301; no other
  code point beyond ASCII occurs in them. Then a row of the table with three leaves
  recorded for February 2024, a registration request, a list of requests whose second
  repeats the first, a table with malformed registration numbers, and the row that
  \<open>register\<close> stores for the example request under a given id, number, name and email.
\<close>

definition example_lib :: unicode_lib where
  "example_lib =
     \<lparr>unicode_lower = map (\<lambda>c. if c = 201 then 233 else ascii_lower c),
      unicode_nfd = (\<lambda>s. concat (map (\<lambda>c. if c = 233 then [101, 769] else [c]) s)),
      unicode_int = (\<lambda>s. None), unicode_strptime = (\<lambda>s. None)\<rparr>"

definition example_user :: user where
  "example_user =
     \<lparr>user_id = 1, reg_no = lit ''2024-XYZ-0001'', name = lit ''Ada Lovelace'',
      dob = (1990, 12, 10), gender = lit ''F'', email = lit ''ada.lovelace@company.com'',
      attendance_count = 4, leaves_taken = 3, last_leave_month = Some (lit ''2024-2''),
      messages = Some [], face_image = lit ''img''\<rparr>"

definition example_request :: register_request where
  "example_request =
     \<lparr>req_name = lit ''Madonna'', req_dob = lit ''1958-08-16'', req_gender = lit ''F'',
      req_face_image = lit ''img''\<rparr>"

definition example_requests :: "register_request list" where
  "example_requests =
     [example_request, example_request, example_request\<lparr>req_name := lit ''Ada Lovelace''\<rparr>]"


definition example_row :: "int \<Rightarrow> string \<Rightarrow> string \<Rightarrow> string \<Rightarrow> user" where
  "example_row i r n e =
     \<lparr>user_id = i, reg_no = lit r, name = lit n, dob = (1958, 8, 16), gender = lit ''F'',
      email = lit e, attendance_count = 0, leaves_taken = 0, last_leave_month = None,
      messages = Some [], face_image = lit ''img''\<rparr>"

section \<open>Properties\<close>

subsection \<open>Working days\<close>

lemma fold_count_filter:
  "fold (\<lambda>x c. if P x then c + 1 else c) xs (c0 :: int) = c0 + int (length (filter P xs))"
  by (induction xs arbitrary: c0) auto

lemma weekday_range: "0 \<le> weekday y m d \<and> weekday y m d < 7"
  by (simp add: weekday_def)

text \<open>
  C2. For a year in 1..9999 and a month in 1..12, \<open>get_working_days_in_month\<close> returns
  the number of days of that month, in the proleptic Gregorian calendar of the library,
  whose weekday is Monday (0) to Friday (4). Nothing else (no holiday) enters the count.
  For February 2024 it returns 21.
\<close>

theorem working_days_count:
  assumes "1 \<le> year" and "year \<le> 9999" and "1 \<le> month" and "month \<le> 12"
  shows "get_working_days_in_month year month =
           Inr (int (card {day. 1 \<le> day \<and> day \<le> days_in_month year month
                                \<and> weekday year month day \<in> {0, 1, 2, 3, 4}}))
         \<and> get_working_days_in_month 2024 2 = Inr 21"
proof -
  let ?P = "\<lambda>day. weekday year month day < 5"
  have "length (filter ?P [1..days_in_month year month])
          = card ({day. ?P day} \<inter> set [1..days_in_month year month])"
    by (rule distinct_length_filter) simp
  also have "{day. ?P day} \<inter> set [1..days_in_month year month]
          = {day. 1 \<le> day \<and> day \<le> days_in_month year month
                    \<and> weekday year month day \<in> {0, 1, 2, 3, 4}}"
  proof -
    have "(weekday year month day < 5) = (weekday year month day \<in> {0, 1, 2, 3, 4})" for day
      using weekday_range [of year month day] by auto
    then show ?thesis by auto
  qed
  finally have "get_working_days_in_month year month =
           Inr (int (card {day. 1 \<le> day \<and> day \<le> days_in_month year month
                                \<and> weekday year month day \<in> {0, 1, 2, 3, 4}}))"
    using assms by (simp add: get_working_days_in_month_def fold_count_filter)
  moreover have "get_working_days_in_month 2024 2 = Inr 21"
    by code_simp
  ultimately show ?thesis by simp
qed

theorem working_days_count_witness:
  "(1::int) \<le> 2024 \<and> (2024::int) \<le> 9999 \<and> (1::int) \<le> 2 \<and> (2::int) \<le> 12
   \<and> get_working_days_in_month 2024 2 =
           Inr (int (card {day. 1 \<le> day \<and> day \<le> days_in_month 2024 2
                                \<and> weekday 2024 2 day \<in> {0, 1, 2, 3, 4}}))
   \<and> get_working_days_in_month 2024 2 = Inr 21"
proof -
  have h: "(1::int) \<le> 2024 \<and> (2024::int) \<le> 9999 \<and> (1::int) \<le> 2 \<and> (2::int) \<le> 12"
    by simp
  show ?thesis using h working_days_count [of 2024 2] by blast
qed

subsection \<open>Status check\<close>

lemma first_index_Some:
  "first_index P xs = Some i \<Longrightarrow> i < length xs \<and> P (xs ! i)"
  by (induction xs arbitrary: i) (auto split: if_splits)

lemma first_index_cong_map:
  "map f xs = map f ys \<Longrightarrow> first_index (\<lambda>u. Q (f u)) xs = first_index (\<lambda>u. Q (f u)) ys"
proof (induction xs arbitrary: ys)
  case Nil
  then show ?case by simp
next
  case (Cons x xs)
  then obtain y ys' where "ys = y # ys'" by (cases ys) auto
  with Cons show ?case by auto
qed

lemma check_status_Inr:
  assumes "check_status U year month db e = Inr (resp, commits)"
  shows "\<exists>i wd.
      first_index (\<lambda>u. sql_lower (email u) = py_lower U (py_strip e)) db = Some i
    \<and> i < length db
    \<and> get_working_days_in_month year month = Inr wd
    \<and> (let cur = str_int year @ lit ''-'' @ str_int month;
            rollover = (last_leave_month (db ! i) \<noteq> Some cur);
            u1 = (if rollover then (db ! i)\<lparr>leaves_taken := 0, last_leave_month := Some cur\<rparr>
                  else db ! i);
            msgs = advisory_messages (leaves_taken u1) (attendance_percent wd (leaves_taken u1))
        in resp = \<lparr>status_name = name (db ! i),
                    status_attendance_count = attendance_count (db ! i),
                    status_leaves_taken = leaves_taken u1,
                    status_attendance_percent = py_round1 (attendance_percent wd (leaves_taken u1)),
                    status_messages = msgs\<rparr>
         \<and> commits = (if rollover then [db[i := u1]] else [])
                       @ [db[i := u1\<lparr>messages := Some (join (lit '' | '') msgs)\<rparr>]])"
  using assms
  by (auto simp: check_status_def Let_def dest: first_index_Some split: if_splits option.splits sum.splits)

text \<open>
  C1. In every successful status check the percentage is
  \<open>max(0, (working_days - leaves_taken) / working_days * 100)\<close> in binary64 arithmetic when
  \<open>working_days > 0\<close> and 100 otherwise, where \<open>leaves_taken\<close> is the value the response
  reports, and the response carries it rounded to one decimal. With 21 working days and 3
  leaves the response carries 85.7 (the binary64 number of that literal).
\<close>

theorem status_percent:
  assumes "check_status U year month db e = Inr (resp, commits)"
      and "get_working_days_in_month year month = Inr working_days"
  shows "status_attendance_percent resp =
           py_round1 (if working_days > 0
                      then max 0 (fmul (fdiv (working_days - status_leaves_taken resp) working_days) 100)
                      else 100)
       \<and> (working_days = 21 \<and> status_leaves_taken resp = 3
            \<longrightarrow> status_attendance_percent resp = fl (857 / 10))"
proof -
  from check_status_Inr [OF assms(1)] assms(2)
  have eq: "status_attendance_percent resp =
          py_round1 (attendance_percent working_days (status_leaves_taken resp))"
    by (auto simp: Let_def)
  have ex: "py_round1 (attendance_percent 21 3) = fl (857 / 10)"
    by code_simp
  show ?thesis
    using eq ex by (auto simp: attendance_percent_def)
qed

theorem status_percent_witness:
  "\<exists>resp commits.
     check_status example_lib 2024 2 [example_user] (lit ''ada.lovelace@company.com'')
       = Inr (resp, commits)
     \<and> get_working_days_in_month 2024 2 = Inr 21
     \<and> status_leaves_taken resp = 3
     \<and> status_attendance_percent resp = fl (857 / 10)"
proof -
  have "case check_status example_lib 2024 2 [example_user] (lit ''ada.lovelace@company.com'')
        of Inl _ \<Rightarrow> False | Inr (r, c) \<Rightarrow> status_leaves_taken r = 3"
    by code_simp
  then obtain resp commits where
    cs: "check_status example_lib 2024 2 [example_user] (lit ''ada.lovelace@company.com'')
           = Inr (resp, commits)"
    and lt: "status_leaves_taken resp = 3"
    by (auto split: sum.splits)
  have wd: "get_working_days_in_month 2024 2 = Inr 21"
    by code_simp
  from status_percent [OF cs wd] lt
  have "status_attendance_percent resp = fl (857 / 10)" by simp
  with cs wd lt show ?thesis by blast
qed

lemma advisory_messages_closed:
  "advisory_messages lt p =
     (let fired =
            (if lt > 2
             then [lit ''Alert: You have taken more than 2 leaves ('' @ str_int lt
                     @ lit '') this month.'']
             else [])
          @ (if p < 90
             then [lit ''Warning: Your attendance is below 90% ('' @ format_1f p @ lit ''%).'']
             else [])
          @ (if p = 100 then [lit ''Great job! You have 100% attendance this month.''] else [])
      in if fired = []
         then [lit ''Your attendance and leave status are within acceptable limits.'']
         else fired)"
  by (simp add: advisory_messages_def Let_def)

text \<open>
  C3. In every successful status check the messages are, in this order, the alert when
  \<open>leaves_taken > 2\<close>, the warning when the percentage is below 90 and the congratulation
  when it equals 100, each included whenever its own condition holds; when none holds the
  list is the single within-limits message. The messages joined by \<open>" | "\<close> are stored in
  the column \<open>messages\<close> of the user's row in the table the check commits last.
\<close>

theorem status_messages_all_applicable:
  assumes "check_status U year month db e = Inr (resp, commits)"
      and "get_working_days_in_month year month = Inr working_days"
      and "first_index (\<lambda>u. sql_lower (email u) = py_lower U (py_strip e)) db = Some i"
  shows "status_messages resp =
     (let percent = attendance_percent working_days (status_leaves_taken resp);
          fired =
            (if status_leaves_taken resp > 2
             then [lit ''Alert: You have taken more than 2 leaves (''
                     @ str_int (status_leaves_taken resp) @ lit '') this month.'']
             else [])
          @ (if percent < 90
             then [lit ''Warning: Your attendance is below 90% ('' @ format_1f percent
                     @ lit ''%).'']
             else [])
          @ (if percent = 100
             then [lit ''Great job! You have 100% attendance this month.'']
             else [])
      in if fired = []
         then [lit ''Your attendance and leave status are within acceptable limits.'']
         else fired)
    \<and> commits \<noteq> []
    \<and> messages (last commits ! i) = Some (join (lit '' | '') (status_messages resp))"
proof -
  from check_status_Inr [OF assms(1)] assms(2,3)
  have i: "i < length db"
    and m: "status_messages resp =
       advisory_messages (status_leaves_taken resp)
         (attendance_percent working_days (status_leaves_taken resp))"
    and c: "commits \<noteq> []"
           "messages (last commits ! i) = Some (join (lit '' | '') (status_messages resp))"
    by (auto simp: Let_def)
  show ?thesis
    using m c unfolding advisory_messages_closed by (simp add: Let_def)
qed

theorem status_messages_all_applicable_witness:
  "\<exists>resp commits.
     check_status example_lib 2024 2 [example_user] (lit ''ada.lovelace@company.com'')
       = Inr (resp, commits)
     \<and> get_working_days_in_month 2024 2 = Inr 21
     \<and> first_index (\<lambda>u. sql_lower (email u)
            = py_lower example_lib (py_strip (lit ''ada.lovelace@company.com'')))
          [example_user] = Some 0
     \<and> status_messages resp =
          [lit ''Alert: You have taken more than 2 leaves (3) this month.'',
           lit ''Warning: Your attendance is below 90% (85.7%).'']
     \<and> messages (last commits ! 0) =
          Some (lit ''Alert: You have taken more than 2 leaves (3) this month. | Warning: Your attendance is below 90% (85.7%).'')"
proof -
  have "case check_status example_lib 2024 2 [example_user] (lit ''ada.lovelace@company.com'')
        of Inl _ \<Rightarrow> False | Inr (r, c) \<Rightarrow> status_leaves_taken r = 3"
    by code_simp
  then obtain resp commits where
    cs: "check_status example_lib 2024 2 [example_user] (lit ''ada.lovelace@company.com'')
           = Inr (resp, commits)"
    and lt: "status_leaves_taken resp = 3"
    by (auto split: sum.splits)
  have wd: "get_working_days_in_month 2024 2 = Inr 21"
    by code_simp
  have idx: "first_index (\<lambda>u. sql_lower (email u)
            = py_lower example_lib (py_strip (lit ''ada.lovelace@company.com'')))
          [example_user] = Some 0"
    by code_simp
  have p: "attendance_percent 21 3 < 90" "attendance_percent 21 3 \<noteq> 100"
    "format_1f (attendance_percent 21 3) = lit ''85.7''"
    "str_int 3 = lit ''3''"
    by code_simp+
  have l1: "lit ''Alert: You have taken more than 2 leaves ('' @ lit ''3'' @ lit '') this month.''
            = lit ''Alert: You have taken more than 2 leaves (3) this month.''"
    and l2: "lit ''Warning: Your attendance is below 90% ('' @ lit ''85.7'' @ lit ''%).''
            = lit ''Warning: Your attendance is below 90% (85.7%).''"
    and l3: "join (lit '' | '')
          [lit ''Alert: You have taken more than 2 leaves (3) this month.'',
           lit ''Warning: Your attendance is below 90% (85.7%).'']
         = lit ''Alert: You have taken more than 2 leaves (3) this month. | Warning: Your attendance is below 90% (85.7%).''"
    by (simp_all add: lit_def)
  from status_messages_all_applicable [OF cs wd idx]
  have "status_messages resp =
          [lit ''Alert: You have taken more than 2 leaves (3) this month.'',
           lit ''Warning: Your attendance is below 90% (85.7%).'']"
    and "messages (last commits ! 0) = Some (join (lit '' | '') (status_messages resp))"
    by (simp_all add: lt p l1 l2 Let_def)
  with cs wd idx l3 show ?thesis by auto
qed

lemma check_status_same_month:
  assumes "first_index (\<lambda>u. sql_lower (email u) = py_lower U (py_strip e)) db = Some i"
      and "py_lower U (py_strip e) \<noteq> []"
      and "get_working_days_in_month year month = Inr wd"
      and "last_leave_month (db ! i) = Some (str_int year @ lit ''-'' @ str_int month)"
  shows "\<exists>resp c. check_status U year month db e = Inr (resp, [c])
           \<and> status_leaves_taken resp = leaves_taken (db ! i)
           \<and> leaves_taken (c ! i) = leaves_taken (db ! i)
           \<and> last_leave_month (c ! i) = last_leave_month (db ! i)"
  using assms first_index_Some [OF assms(1)]
  by (simp add: check_status_def Let_def)

lemma check_status_nonempty_email:
  "check_status U year month db e = Inr (resp, commits) \<Longrightarrow> py_lower U (py_strip e) \<noteq> []"
  by (auto simp: check_status_def Let_def split: if_splits)

text \<open>
  C4. In a successful status check of the user in row \<open>i\<close>: when the stored month tag
  differs from the tag of the current month, the check commits exactly twice, the first
  commit being the table with \<open>leaves_taken = 0\<close> and the new tag in that row and nothing
  else changed, and the percentage is computed from 0 leaves; when the tags are equal it
  commits once and \<open>leaves_taken\<close> stays as it was. Either way the row then carries the
  current tag, so a second check in the same month succeeds with a single commit and
  resets nothing.
\<close>

theorem monthly_rollover:
  assumes "check_status U year month db e = Inr (resp, commits)"
      and "first_index (\<lambda>u. sql_lower (email u) = py_lower U (py_strip e)) db = Some i"
      and "get_working_days_in_month year month = Inr working_days"
  shows "(last_leave_month (db ! i) \<noteq> Some (str_int year @ lit ''-'' @ str_int month) \<longrightarrow>
            length commits = 2
          \<and> hd commits = db[i := (db ! i)\<lparr>leaves_taken := 0,
                              last_leave_month := Some (str_int year @ lit ''-'' @ str_int month)\<rparr>]
          \<and> status_leaves_taken resp = 0
          \<and> status_attendance_percent resp = py_round1 (attendance_percent working_days 0)
          \<and> leaves_taken (last commits ! i) = 0)
       \<and> (last_leave_month (db ! i) = Some (str_int year @ lit ''-'' @ str_int month) \<longrightarrow>
            length commits = 1
          \<and> status_leaves_taken resp = leaves_taken (db ! i)
          \<and> leaves_taken (last commits ! i) = leaves_taken (db ! i))
       \<and> last_leave_month (last commits ! i)
            = Some (str_int year @ lit ''-'' @ str_int month)
       \<and> (\<exists>resp2 c2. check_status U year month (last commits) e = Inr (resp2, [c2])
            \<and> status_leaves_taken resp2 = leaves_taken (last commits ! i)
            \<and> leaves_taken (c2 ! i) = leaves_taken (last commits ! i))"
proof -
  let ?cur = "str_int year @ lit ''-'' @ str_int month"
  from check_status_Inr [OF assms(1)] assms(2,3)
  have i: "i < length db"
    and main: "(last_leave_month (db ! i) \<noteq> Some ?cur \<longrightarrow>
            length commits = 2
          \<and> hd commits = db[i := (db ! i)\<lparr>leaves_taken := 0, last_leave_month := Some ?cur\<rparr>]
          \<and> status_leaves_taken resp = 0
          \<and> status_attendance_percent resp = py_round1 (attendance_percent working_days 0)
          \<and> leaves_taken (last commits ! i) = 0)
       \<and> (last_leave_month (db ! i) = Some ?cur \<longrightarrow>
            length commits = 1
          \<and> status_leaves_taken resp = leaves_taken (db ! i)
          \<and> leaves_taken (last commits ! i) = leaves_taken (db ! i))"
    and tag: "last_leave_month (last commits ! i) = Some ?cur"
    and emails: "map email (last commits) = map email db"
    by (auto simp: Let_def map_update list_update_same_conv)
  from emails have "first_index (\<lambda>u. sql_lower (email u) = py_lower U (py_strip e)) (last commits)
                  = first_index (\<lambda>u. sql_lower (email u) = py_lower U (py_strip e)) db"
    by (rule first_index_cong_map)
  with assms(2) have idx': "first_index (\<lambda>u. sql_lower (email u) = py_lower U (py_strip e))
                              (last commits) = Some i"
    by simp
  from check_status_same_month [OF idx' check_status_nonempty_email [OF assms(1)] assms(3) tag]
  have "\<exists>resp2 c2. check_status U year month (last commits) e = Inr (resp2, [c2])
            \<and> status_leaves_taken resp2 = leaves_taken (last commits ! i)
            \<and> leaves_taken (c2 ! i) = leaves_taken (last commits ! i)"
    by blast
  with main tag show ?thesis by blast
qed

theorem monthly_rollover_witness:
  "(\<exists>resp commits.
      check_status example_lib 2024 3 [example_user] (lit ''ada.lovelace@company.com'')
        = Inr (resp, commits)
      \<and> first_index (\<lambda>u. sql_lower (email u)
            = py_lower example_lib (py_strip (lit ''ada.lovelace@company.com'')))
          [example_user] = Some 0
      \<and> get_working_days_in_month 2024 3 = Inr 21
      \<and> last_leave_month ([example_user] ! 0) \<noteq> Some (str_int 2024 @ lit ''-'' @ str_int 3)
      \<and> leaves_taken ([example_user] ! 0) = 3
      \<and> length commits = 2
      \<and> status_leaves_taken resp = 0
      \<and> leaves_taken (last commits ! 0) = 0)
   \<and> (\<exists>resp commits.
      check_status example_lib 2024 2 [example_user] (lit ''ada.lovelace@company.com'')
        = Inr (resp, commits)
      \<and> get_working_days_in_month 2024 2 = Inr 21
      \<and> last_leave_month ([example_user] ! 0) = Some (str_int 2024 @ lit ''-'' @ str_int 2)
      \<and> length commits = 1
      \<and> status_leaves_taken resp = 3
      \<and> leaves_taken (last commits ! 0) = 3)"
proof -
  have idx: "first_index (\<lambda>u. sql_lower (email u)
            = py_lower example_lib (py_strip (lit ''ada.lovelace@company.com'')))
          [example_user] = Some 0"
    by code_simp
  have lt: "leaves_taken ([example_user] ! 0) = 3"
    by code_simp
  have "case check_status example_lib 2024 3 [example_user] (lit ''ada.lovelace@company.com'')
        of Inl _ \<Rightarrow> False | Inr _ \<Rightarrow> True"
    by code_simp
  then obtain resp3 commits3 where
    cs3: "check_status example_lib 2024 3 [example_user] (lit ''ada.lovelace@company.com'')
           = Inr (resp3, commits3)"
    by (auto split: sum.splits)
  have wd3: "get_working_days_in_month 2024 3 = Inr 21"
    by code_simp
  have tag3: "last_leave_month ([example_user] ! 0) \<noteq> Some (str_int 2024 @ lit ''-'' @ str_int 3)"
    by code_simp
  from monthly_rollover [OF cs3 idx wd3] tag3
  have r3: "length commits3 = 2" "status_leaves_taken resp3 = 0"
    "leaves_taken (last commits3 ! 0) = 0"
    by blast+
  have "case check_status example_lib 2024 2 [example_user] (lit ''ada.lovelace@company.com'')
        of Inl _ \<Rightarrow> False | Inr _ \<Rightarrow> True"
    by code_simp
  then obtain resp2 commits2 where
    cs2: "check_status example_lib 2024 2 [example_user] (lit ''ada.lovelace@company.com'')
           = Inr (resp2, commits2)"
    by (auto split: sum.splits)
  have wd2: "get_working_days_in_month 2024 2 = Inr 21"
    by code_simp
  have tag2: "last_leave_month ([example_user] ! 0) = Some (str_int 2024 @ lit ''-'' @ str_int 2)"
    by code_simp
  from monthly_rollover [OF cs2 idx wd2] tag2 lt
  have r2: "length commits2 = 1" "status_leaves_taken resp2 = 3"
    "leaves_taken (last commits2 ! 0) = 3"
    by auto
  show ?thesis
    using cs3 idx wd3 tag3 lt r3 cs2 wd2 tag2 r2 by blast
qed

subsection \<open>Recognition and the attendance counter\<close>

lemma register_Inr:
  assumes "register U year db data = Inr (resp, db')"
  shows "\<exists>u. db' = db @ [u]
           \<and> attendance_count u = 0 \<and> leaves_taken u = 0
           \<and> reg_no u = generate_next_reg_no U year db
           \<and> resp_reg_no resp = reg_no u
           \<and> generate_email U db (py_strip (req_name data)) = Some (email u)
           \<and> resp_email resp = email u
           \<and> name u = py_strip (req_name data)"
  using assms
  by (auto simp: register_def Let_def split: if_splits option.splits)

lemma check_status_commits:
  assumes "check_status U year month db e = Inr (resp, commits)" and "c \<in> set commits"
  shows "\<exists>i u. i < length db \<and> c = db[i := u]
           \<and> attendance_count u = attendance_count (db ! i)
           \<and> (leaves_taken u = leaves_taken (db ! i) \<or> leaves_taken u = 0)"
proof -
  from check_status_Inr [OF assms(1)] obtain i wd where
    i: "i < length db" and
    c: "let cur = str_int year @ lit ''-'' @ str_int month;
            rollover = (last_leave_month (db ! i) \<noteq> Some cur);
            u1 = (if rollover then (db ! i)\<lparr>leaves_taken := 0, last_leave_month := Some cur\<rparr>
                  else db ! i);
            msgs = advisory_messages (leaves_taken u1) (attendance_percent wd (leaves_taken u1))
        in commits = (if rollover then [db[i := u1]] else [])
                       @ [db[i := u1\<lparr>messages := Some (join (lit '' | '') msgs)\<rparr>]]"
    by (auto simp: Let_def)
  show ?thesis
  proof (cases "last_leave_month (db ! i) \<noteq> Some (str_int year @ lit ''-'' @ str_int month)")
    case True
    with c assms(2) have
      "c = db[i := (db ! i)\<lparr>leaves_taken := 0,
                 last_leave_month := Some (str_int year @ lit ''-'' @ str_int month)\<rparr>]
       \<or> c = db[i := (db ! i)\<lparr>leaves_taken := 0,
                 last_leave_month := Some (str_int year @ lit ''-'' @ str_int month),
                 messages := Some (join (lit '' | '')
                    (advisory_messages 0 (attendance_percent wd 0)))\<rparr>]"
      by (auto simp: Let_def)
    then show ?thesis
    proof
      assume "c = db[i := (db ! i)\<lparr>leaves_taken := 0,
                 last_leave_month := Some (str_int year @ lit ''-'' @ str_int month)\<rparr>]"
      with i show ?thesis by (intro exI [of _ i] exI) auto
    next
      assume "c = db[i := (db ! i)\<lparr>leaves_taken := 0,
                 last_leave_month := Some (str_int year @ lit ''-'' @ str_int month),
                 messages := Some (join (lit '' | '')
                    (advisory_messages 0 (attendance_percent wd 0)))\<rparr>]"
      with i show ?thesis by (intro exI [of _ i] exI) auto
    qed
  next
    case False
    with c assms(2) have
      "c = db[i := (db ! i)\<lparr>messages := Some (join (lit '' | '')
             (advisory_messages (leaves_taken (db ! i))
                (attendance_percent wd (leaves_taken (db ! i)))))\<rparr>]"
      by (auto simp: Let_def)
    with i show ?thesis by (intro exI [of _ i] exI) auto
  qed
qed

lemma check_status_commit_frame:
  assumes "check_status U year month db e = Inr (resp, commits)" and "c \<in> set commits"
  shows "map attendance_count c = map attendance_count db"
    and "length c = length db"
    and "\<forall>j < length db. leaves_taken (c ! j) = leaves_taken (db ! j) \<or> leaves_taken (c ! j) = 0"
proof -
  from check_status_commits [OF assms] obtain i u where
    i: "i < length db" and c: "c = db[i := u]" and
    u: "attendance_count u = attendance_count (db ! i)"
       "leaves_taken u = leaves_taken (db ! i) \<or> leaves_taken u = 0"
    by blast
  from i c u show "map attendance_count c = map attendance_count db"
    by (simp add: map_update list_update_same_conv)
  from c show "length c = length db" by simp
  from i c u show "\<forall>j < length db. leaves_taken (c ! j) = leaves_taken (db ! j) \<or> leaves_taken (c ! j) = 0"
    by (auto simp: nth_list_update)
qed

lemma admin_user_Inr:
  assumes "admin_user today db meth r = Inr (resp, db')"
  shows "(meth = GET \<and> db' = db) \<or> (meth = DELETE \<and> (\<exists>u \<in> set db. reg_no u = r \<and> db' = remove1 u db))"
  using assms
  by (auto simp: admin_user_def find_Some_iff split: option.splits http_method.splits)

text \<open>
  C8. \<open>recognize\<close> has two outcomes. With no rows, or when the draw is not below 0.5, it
  reports "not recognized" and returns the table as it was. Otherwise it reports
  "recognized" and returns the table with \<open>attendance_count\<close> of the one drawn row
  raised by exactly 1, nothing else changed. No row's count ever goes down in it. The other
  routes leave every count alone: \<open>register\<close> appends one row whose count is 0,
  every commit of \<open>check_status\<close> has the counts of the table it started from,
  \<open>admin_user\<close> returns the table unchanged (GET) or without one of its rows (DELETE),
  and \<open>admin_users\<close> returns the table unchanged.
\<close>

theorem recognition_frame:
  "(db = [] \<or> \<not> rnd < 1 / 2 \<longrightarrow> (\<exists>m. recognize db rnd choice = (NotRecognized m, db)))
   \<and> (db \<noteq> [] \<and> rnd < 1 / 2 \<and> choice < length db \<longrightarrow>
        (\<exists>m. recognize db rnd choice =
           (Recognized (reg_no (db ! choice)) (name (db ! choice))
              (attendance_count (db ! choice) + 1) m,
            db[choice := (db ! choice)\<lparr>attendance_count := attendance_count (db ! choice) + 1\<rparr>])))
   \<and> length (snd (recognize db rnd choice)) = length db
   \<and> (\<forall>i < length db.
         attendance_count (db ! i) \<le> attendance_count (snd (recognize db rnd choice) ! i))
   \<and> (register U year db data = Inr (rresp, db1) \<longrightarrow>
         (\<exists>u. db1 = db @ [u] \<and> attendance_count u = 0))
   \<and> (check_status U year month db e = Inr (sresp, commits) \<longrightarrow>
         (\<forall>c \<in> set commits. map attendance_count c = map attendance_count db))
   \<and> (admin_user today db meth r = Inr (aresp, db2) \<longrightarrow>
         (meth = GET \<and> db2 = db) \<or> (meth = DELETE \<and> (\<exists>u \<in> set db. db2 = remove1 u db)))
   \<and> snd (admin_users today db) = db"
proof -
  have a: "db = [] \<or> \<not> rnd < 1 / 2 \<longrightarrow> (\<exists>m. recognize db rnd choice = (NotRecognized m, db))"
    by (auto simp: recognize_def)
  have b: "db \<noteq> [] \<and> rnd < 1 / 2 \<and> choice < length db \<longrightarrow>
        (\<exists>m. recognize db rnd choice =
           (Recognized (reg_no (db ! choice)) (name (db ! choice))
              (attendance_count (db ! choice) + 1) m,
            db[choice := (db ! choice)\<lparr>attendance_count := attendance_count (db ! choice) + 1\<rparr>]))"
    by (auto simp: recognize_def Let_def)
  have c: "length (snd (recognize db rnd choice)) = length db"
    by (auto simp: recognize_def Let_def)
  have d: "\<forall>i < length db.
         attendance_count (db ! i) \<le> attendance_count (snd (recognize db rnd choice) ! i)"
  proof (cases "choice < length db")
    case True
    then show ?thesis by (auto simp: recognize_def Let_def nth_list_update)
  next
    case False
    then show ?thesis by (auto simp: recognize_def Let_def)
  qed
  have e: "register U year db data = Inr (rresp, db1) \<longrightarrow>
         (\<exists>u. db1 = db @ [u] \<and> attendance_count u = 0)"
    using register_Inr by blast
  have f: "check_status U year month db e = Inr (sresp, commits) \<longrightarrow>
         (\<forall>c \<in> set commits. map attendance_count c = map attendance_count db)"
    using check_status_commit_frame(1) by blast
  have g: "admin_user today db meth r = Inr (aresp, db2) \<longrightarrow>
         (meth = GET \<and> db2 = db) \<or> (meth = DELETE \<and> (\<exists>u \<in> set db. db2 = remove1 u db))"
    using admin_user_Inr by blast
  have h: "snd (admin_users today db) = db"
    by (simp add: admin_users_def)
  from a b c d e f g h show ?thesis by blast
qed

theorem recognition_frame_witness:
  "(\<exists>m. recognize [example_user] (1 / 4) 0 =
          (Recognized (lit ''2024-XYZ-0001'') (lit ''Ada Lovelace'') 5 m,
           [example_user\<lparr>attendance_count := 5\<rparr>]))
   \<and> (\<exists>m. recognize [example_user] (3 / 4) 0 = (NotRecognized m, [example_user]))
   \<and> (\<exists>m. recognize [] (1 / 4) 0 = (NotRecognized m, []))
   \<and> (\<exists>rresp u. register example_lib 2024 [example_user] example_request
                    = Inr (rresp, [example_user, u]) \<and> attendance_count u = 0)
   \<and> (\<exists>sresp commits.
         check_status example_lib 2024 3 [example_user] (lit ''ada.lovelace@company.com'')
           = Inr (sresp, commits)
         \<and> commits \<noteq> [] \<and> map attendance_count (last commits) = [4])
   \<and> (\<exists>aresp. admin_user (2024, 3, 1) [example_user] DELETE (lit ''2024-XYZ-0001'')
                  = Inr (aresp, []))"
proof -
  have u: "reg_no example_user = lit ''2024-XYZ-0001''" "name example_user = lit ''Ada Lovelace''"
    "attendance_count example_user = 4"
    by (simp_all add: example_user_def)
  have r1: "\<exists>m. recognize [example_user] (1 / 4) 0 =
          (Recognized (lit ''2024-XYZ-0001'') (lit ''Ada Lovelace'') 5 m,
           [example_user\<lparr>attendance_count := 5\<rparr>])"
    using recognition_frame [where db = "[example_user]" and rnd = "1 / 4" and choice = 0]
    by (simp add: u)
  have r2: "\<exists>m. recognize [example_user] (3 / 4) 0 = (NotRecognized m, [example_user])"
    using recognition_frame [where db = "[example_user]" and rnd = "3 / 4" and choice = 0]
    by simp
  have r3: "\<exists>m. recognize [] (1 / 4) 0 = (NotRecognized m, [])"
    using recognition_frame [where db = "[]" and rnd = "1 / 4" and choice = 0]
    by simp
  have "case register example_lib 2024 [example_user] example_request
        of Inl _ \<Rightarrow> False | Inr _ \<Rightarrow> True"
    by code_simp
  then obtain rresp db1 where
    reg: "register example_lib 2024 [example_user] example_request = Inr (rresp, db1)"
    by (auto split: sum.splits)
  from recognition_frame [where db = "[example_user]" and U = example_lib and year = 2024
       and data = example_request and rresp = rresp and ?db1.0 = db1] reg
  have r4: "\<exists>rresp u. register example_lib 2024 [example_user] example_request
                    = Inr (rresp, [example_user, u]) \<and> attendance_count u = 0"
    by auto
  have "case check_status example_lib 2024 3 [example_user] (lit ''ada.lovelace@company.com'')
        of Inl _ \<Rightarrow> False | Inr (r, c) \<Rightarrow> c \<noteq> []"
    by code_simp
  then obtain sresp commits where
    cs: "check_status example_lib 2024 3 [example_user] (lit ''ada.lovelace@company.com'')
           = Inr (sresp, commits)" and ne: "commits \<noteq> []"
    by (auto split: sum.splits)
  from recognition_frame [where db = "[example_user]" and U = example_lib and year = 2024
       and month = 3 and e = "lit ''ada.lovelace@company.com''" and sresp = sresp
       and commits = commits] cs ne
  have "map attendance_count (last commits) = map attendance_count [example_user]"
    by (meson last_in_set)
  with cs ne have r5: "\<exists>sresp commits.
         check_status example_lib 2024 3 [example_user] (lit ''ada.lovelace@company.com'')
           = Inr (sresp, commits)
         \<and> commits \<noteq> [] \<and> map attendance_count (last commits) = [4]"
    by (auto simp: u)
  have "case admin_user (2024, 3, 1) [example_user] DELETE (lit ''2024-XYZ-0001'')
        of Inl _ \<Rightarrow> False | Inr _ \<Rightarrow> True"
    by code_simp
  then obtain aresp db2 where
    del: "admin_user (2024, 3, 1) [example_user] DELETE (lit ''2024-XYZ-0001'') = Inr (aresp, db2)"
    by (auto split: sum.splits)
  from recognition_frame [where db = "[example_user]" and today = "(2024, 3, 1)"
       and meth = DELETE and r = "lit ''2024-XYZ-0001''" and aresp = aresp and ?db2.0 = db2] del
  have "db2 = []" by auto
  with del have r6: "\<exists>aresp. admin_user (2024, 3, 1) [example_user] DELETE (lit ''2024-XYZ-0001'')
                  = Inr (aresp, [])"
    by blast
  from r1 r2 r3 r4 r5 r6 show ?thesis by blast
qed

subsection \<open>Leaves in reachable tables\<close>

lemma fl_one: "fl 1 = 1" by code_simp
lemma fl_hundred: "fl 100 = 100" by code_simp
lemma round_hundred: "py_round1 100 = 100" by code_simp

lemma attendance_percent_no_leaves: "attendance_percent working_days 0 = 100"
  by (simp add: attendance_percent_def fdiv_def fmul_def fl_one fl_hundred)

lemma advisory_messages_full:
  "advisory_messages 0 100 = [lit ''Great job! You have 100% attendance this month.'']"
  by (simp add: advisory_messages_def)

lemma reachable_leaves_zero:
  "reachable U db \<Longrightarrow> \<forall>u \<in> set db. leaves_taken u = 0"
proof (induction rule: reachable.induct)
  case reachable_init
  then show ?case by simp
next
  case (reachable_register db year data resp db')
  from register_Inr [OF reachable_register.hyps(2)] reachable_register.IH
  show ?case by auto
next
  case (reachable_recognize db choice rnd rresp db')
  from reachable_recognize.hyps(3)
  have "db' = db \<or> db' = db[choice := (db ! choice)\<lparr>attendance_count :=
                                attendance_count (db ! choice) + 1\<rparr>]"
    by (auto simp: recognize_def Let_def split: if_splits)
  then show ?case
  proof
    assume "db' = db"
    with reachable_recognize.IH show ?thesis by simp
  next
    assume d: "db' = db[choice := (db ! choice)\<lparr>attendance_count :=
                                attendance_count (db ! choice) + 1\<rparr>]"
    show ?thesis
    proof
      fix u assume "u \<in> set db'"
      with d have "u \<in> insert ((db ! choice)\<lparr>attendance_count :=
                                attendance_count (db ! choice) + 1\<rparr>) (set db)"
        using set_update_subset_insert by fastforce
      with reachable_recognize.IH reachable_recognize.hyps(2)
      show "leaves_taken u = 0" by auto
    qed
  qed
next
  case (reachable_delete db today r aresp db')
  from admin_user_Inr [OF reachable_delete.hyps(2)]
  obtain u where "db' = remove1 u db" by auto
  then have "set db' \<subseteq> set db" by (simp add: set_remove1_subset)
  with reachable_delete.IH show ?case by auto
next
  case (reachable_status db year month e sresp commits db')
  from check_status_commit_frame(2,3) [OF reachable_status.hyps(2,3)]
  have len: "length db' = length db"
    and lt: "\<forall>j < length db. leaves_taken (db' ! j) = leaves_taken (db ! j)
                               \<or> leaves_taken (db' ! j) = 0"
    by auto
  show ?case
  proof
    fix u assume "u \<in> set db'"
    then obtain j where j: "j < length db'" "u = db' ! j"
      by (auto simp: in_set_conv_nth)
    with len lt reachable_status.IH show "leaves_taken u = 0"
      by (metis nth_mem)
  qed
qed

text \<open>
  C10. In every table that the routes can produce from the empty table, every row has
  \<open>leaves_taken = 0\<close>: \<open>register\<close> writes 0 and \<open>check_status\<close> writes 0 or nothing.
  So a successful status check of such a table reports 0 leaves and 100 percent, and its
  only message is the congratulation: neither the alert nor the warning is produced.
\<close>

theorem leaves_never_recorded:
  assumes "reachable U db"
  shows "(\<forall>u \<in> set db. leaves_taken u = 0)
       \<and> (check_status U year month db e = Inr (resp, commits) \<longrightarrow>
            status_leaves_taken resp = 0
          \<and> status_attendance_percent resp = 100
          \<and> status_messages resp = [lit ''Great job! You have 100% attendance this month.''])"
proof -
  have z: "\<forall>u \<in> set db. leaves_taken u = 0"
    using assms by (rule reachable_leaves_zero)
  have "status_leaves_taken resp = 0
          \<and> status_attendance_percent resp = 100
          \<and> status_messages resp = [lit ''Great job! You have 100% attendance this month.'']"
    if cs: "check_status U year month db e = Inr (resp, commits)"
  proof -
    from check_status_Inr [OF cs] obtain i wd where
      i: "i < length db" and
      r: "let cur = str_int year @ lit ''-'' @ str_int month;
            rollover = (last_leave_month (db ! i) \<noteq> Some cur);
            u1 = (if rollover then (db ! i)\<lparr>leaves_taken := 0, last_leave_month := Some cur\<rparr>
                  else db ! i);
            msgs = advisory_messages (leaves_taken u1) (attendance_percent wd (leaves_taken u1))
        in resp = \<lparr>status_name = name (db ! i),
                    status_attendance_count = attendance_count (db ! i),
                    status_leaves_taken = leaves_taken u1,
                    status_attendance_percent = py_round1 (attendance_percent wd (leaves_taken u1)),
                    status_messages = msgs\<rparr>"
      by (auto simp: Let_def)
    from i z have "leaves_taken (db ! i) = 0" by simp
    with r show ?thesis
      by (auto simp: Let_def attendance_percent_no_leaves round_hundred advisory_messages_full)
  qed
  with z show ?thesis by blast
qed

theorem leaves_never_recorded_witness:
  "\<exists>rresp db resp commits.
     register example_lib 2024 [] example_request = Inr (rresp, db)
     \<and> reachable example_lib db
     \<and> db \<noteq> []
     \<and> check_status example_lib 2024 2 db (lit ''madonna@company.com'') = Inr (resp, commits)
     \<and> (\<forall>u \<in> set db. leaves_taken u = 0)
     \<and> status_leaves_taken resp = 0
     \<and> status_attendance_percent resp = 100
     \<and> status_messages resp = [lit ''Great job! You have 100% attendance this month.'']"
proof -
  have "case register example_lib 2024 [] example_request of
          Inl _ \<Rightarrow> False
        | Inr (r, db) \<Rightarrow> db \<noteq> [] \<and>
            (case check_status example_lib 2024 2 db (lit ''madonna@company.com'') of
               Inl _ \<Rightarrow> False | Inr _ \<Rightarrow> True)"
    by code_simp
  then obtain rresp db where
    reg: "register example_lib 2024 [] example_request = Inr (rresp, db)" and
    ne: "db \<noteq> []" and
    ev: "case check_status example_lib 2024 2 db (lit ''madonna@company.com'') of
           Inl _ \<Rightarrow> False | Inr _ \<Rightarrow> True"
    by (cases "register example_lib 2024 [] example_request") auto
  from ev obtain resp commits where
    cs: "check_status example_lib 2024 2 db (lit ''madonna@company.com'') = Inr (resp, commits)"
    by (cases "check_status example_lib 2024 2 db (lit ''madonna@company.com'')") auto
  have re: "reachable example_lib db"
    using reachable_init reg by (rule reachable_register)
  from leaves_never_recorded [OF re, of 2024 2 "lit ''madonna@company.com''" resp commits] cs
  have "(\<forall>u \<in> set db. leaves_taken u = 0)
     \<and> status_leaves_taken resp = 0
     \<and> status_attendance_percent resp = 100
     \<and> status_messages resp = [lit ''Great job! You have 100% attendance this month.'']"
    by blast
  with reg ne re cs show ?thesis by blast
qed

subsection \<open>Registration numbers\<close>

lemma str_nat_digits: "str_nat n \<noteq> [] \<and> (\<forall>c \<in> set (str_nat n). is_digit c)"
proof (induction n rule: str_nat.induct)
  case (1 n)
  show ?case
  proof (cases "n < 10")
    case True
    then show ?thesis by (simp add: str_nat.simps [of n] is_digit_def)
  next
    case False
    have "n mod 10 < 10" by simp
    then have "is_digit (48 + n mod 10)" unfolding is_digit_def by linarith
    with False 1 show ?thesis by (simp add: str_nat.simps [of n])
  qed
qed

lemma foldl_digits_str_nat:
  "foldl (\<lambda>acc c. acc * 10 + (c - 48)) 0 (str_nat n) = n"
proof (induction n rule: str_nat.induct)
  case (1 n)
  show ?case
  proof (cases "n < 10")
    case True
    then show ?thesis by (simp add: str_nat.simps [of n])
  next
    case False
    with 1 show ?thesis by (simp add: str_nat.simps [of n])
  qed
qed

lemma foldl_digits_zeros:
  "foldl (\<lambda>acc c. acc * 10 + (c - 48)) (0::nat) (replicate z 48 @ s)
     = foldl (\<lambda>acc c. acc * 10 + (c - 48)) 0 s"
  by (induction z) auto

lemma str_nat_inj: "str_nat a = str_nat b \<Longrightarrow> a = b"
  by (metis foldl_digits_str_nat)

lemma zfill_str_nat:
  "zfill 4 (str_nat k) = replicate (4 - length (str_nat k)) 48 @ str_nat k"
proof -
  obtain c cs where s: "str_nat k = c # cs"
    using str_nat_digits [of k] by (cases "str_nat k") auto
  with str_nat_digits [of k] have "is_digit c" by simp
  then have "c \<noteq> 43 \<and> c \<noteq> 45" by (auto simp: is_digit_def)
  with s show ?thesis by (auto simp: zfill_def)
qed

lemma scan_max_suffix_Max_aux:
  "fold (\<lambda>u m. case f u of None \<Rightarrow> m | Some s \<Rightarrow> if s > m then s else m) xs (m0::int)
     = Max (insert m0 {n. \<exists>u \<in> set xs. f u = Some n})"
proof (induction xs arbitrary: m0)
  case Nil
  then show ?case by simp
next
  case (Cons x xs)
  let ?S = "{n. \<exists>u \<in> set xs. f u = Some n}"
  have fin: "finite ?S"
  proof -
    have "?S \<subseteq> (\<lambda>u. the (f u)) ` set xs" by force
    then show ?thesis by (rule finite_subset) simp
  qed
  show ?case
  proof (cases "f x")
    case None
    then have "{n. \<exists>u \<in> set (x # xs). f u = Some n} = ?S" by auto
    with None Cons.IH show ?thesis by simp
  next
    case (Some s)
    then have eq: "{n. \<exists>u \<in> set (x # xs). f u = Some n} = insert s ?S" by auto
    have "Max (insert (if s > m0 then s else m0) ?S) = Max (insert m0 (insert s ?S))"
    proof (cases "?S = {}")
      case True
      then show ?thesis by (auto simp: max_def)
    next
      case False
      with fin show ?thesis by (auto simp: max_def)
    qed
    with Some Cons.IH eq show ?thesis by simp
  qed
qed

lemma scan_max_suffix_Max:
  "scan_max_suffix U users = Max (insert 0 {n. \<exists>u \<in> set users. reg_suffix U (reg_no u) = Some n})"
  unfolding scan_max_suffix_def by (rule scan_max_suffix_Max_aux)

lemma scan_max_suffix_nonneg: "0 \<le> scan_max_suffix U users"
proof -
  have "finite {n. \<exists>u \<in> set users. reg_suffix U (reg_no u) = Some n}"
  proof -
    have "{n. \<exists>u \<in> set users. reg_suffix U (reg_no u) = Some n}
            \<subseteq> (\<lambda>u. the (reg_suffix U (reg_no u))) ` set users" by force
    then show ?thesis by (rule finite_subset) simp
  qed
  then show ?thesis unfolding scan_max_suffix_Max by simp
qed

lemma lit_prefix: "lit ''-'' @ lit ''XYZ'' @ lit ''-'' = lit ''-XYZ-''"
  by (simp add: lit_def)



lemma split_on_no_sep: "sep \<notin> set a \<Longrightarrow> split_on sep a = [a]"
  by (induction a) auto

lemma split_on_first: "sep \<notin> set a \<Longrightarrow> split_on sep (a @ sep # rest) = a # split_on sep rest"
  by (induction a) auto

lemma is_ascii_digits: "\<forall>c \<in> set s. is_digit c \<Longrightarrow> is_ascii s"
  by (auto simp: is_ascii_def is_digit_def list_all_iff)

lemma scan_digits_all: "\<forall>c \<in> set s. is_digit c \<Longrightarrow> is_digit p \<or> s \<noteq> [] \<Longrightarrow> scan_digits p s"
proof (induction s arbitrary: p)
  case Nil
  then show ?case by (auto simp: is_digit_def)
next
  case (Cons c s)
  then have "is_digit c" by simp
  then have "c \<noteq> 95" by (auto simp: is_digit_def)
  with Cons show ?case by auto
qed

lemma int_ascii_digits:
  assumes "\<forall>c \<in> set s. is_digit c" and "s \<noteq> []"
  shows "int_ascii s = Some (int (foldl (\<lambda>acc c. acc * 10 + (c - 48)) 0 s))"
proof -
  obtain c cs where s: "s = c # cs" using assms(2) by (cases s) auto
  with assms(1) have c: "is_digit c" by simp
  then have nsp: "\<not> c_isspace c" and nsign: "c \<noteq> 43" "c \<noteq> 45"
    by (auto simp: is_digit_def c_isspace_def)
  have d: "dropWhile c_isspace s = s" using s nsp by simp
  have tw: "takeWhile (\<lambda>c. is_digit c \<or> c = 95) s = s"
    using assms(1) by (simp add: takeWhile_eq_all_conv)
  have dw: "dropWhile (\<lambda>c. is_digit c \<or> c = 95) s = []"
    using assms(1) by (simp add: dropWhile_eq_Nil_conv)
  have f: "filter is_digit s = s" using assms(1) by (simp add: filter_id_conv)
  have sc: "scan_digits 95 s" using assms by (intro scan_digits_all) auto
  show ?thesis
    unfolding int_ascii_def Let_def d
    using s nsign tw dw f sc by (simp add: digits_value_def)
qed

lemma str_int_nonneg_no_dash: "0 \<le> i \<Longrightarrow> 45 \<notin> set (str_int i)"
  using str_nat_digits [of "nat i"] by (auto simp: str_int_def is_digit_def)

lemma reg_suffix_generated:
  assumes "0 \<le> year"
  shows "reg_suffix U (str_int year @ lit ''-XYZ-'' @ replicate z 48 @ str_nat k) = Some (int k)"
proof -
  let ?Z = "replicate z 48 @ str_nat k"
  have "is_digit 48" by (simp add: is_digit_def)
  then have zd: "\<forall>c \<in> set ?Z. is_digit c" "?Z \<noteq> []"
    using str_nat_digits [of k] by auto
  have nd: "45 \<notin> set ?Z"
  proof
    assume "45 \<in> set ?Z"
    with zd(1) have "is_digit 45" by blast
    then show False by (simp add: is_digit_def)
  qed
  have x: "45 \<notin> set (lit ''XYZ'')" by (simp add: lit_def)
  have shape: "str_int year @ lit ''-XYZ-'' @ ?Z = str_int year @ 45 # (lit ''XYZ'' @ 45 # ?Z)"
    by (simp add: lit_def)
  have "split_on 45 (str_int year @ lit ''-XYZ-'' @ ?Z) = [str_int year, lit ''XYZ'', ?Z]"
    unfolding shape
    using str_int_nonneg_no_dash [OF assms] x nd
    by (simp add: split_on_first split_on_no_sep del: append_assoc)
  then have "reg_suffix U (str_int year @ lit ''-XYZ-'' @ ?Z) = py_int U ?Z"
    by (simp add: reg_suffix_def nth_opt_def)
  also have "\<dots> = int_ascii ?Z"
    using is_ascii_digits [OF zd(1)] by (simp add: py_int_def)
  also have "\<dots> = Some (int (foldl (\<lambda>acc c. acc * 10 + (c - 48)) 0 ?Z))"
    using zd by (rule int_ascii_digits)
  also have "foldl (\<lambda>acc c. acc * 10 + (c - 48)) 0 ?Z = k"
    by (simp only: foldl_digits_zeros foldl_digits_str_nat)
  finally show ?thesis by simp
qed

lemma sql_like_prefix_append: "sql_like_prefix p (p @ rest)"
  by (simp add: sql_like_prefix_def)

lemma generate_next_reg_no_shape:
  "generate_next_reg_no U year db =
     str_int year @ lit ''-XYZ-''
       @ replicate (4 - length (str_nat (nat (scan_max_suffix U
            (filter (\<lambda>u. sql_like_prefix (str_int year @ lit ''-XYZ-'') (reg_no u)) db) + 1)))) 48
       @ str_nat (nat (scan_max_suffix U
            (filter (\<lambda>u. sql_like_prefix (str_int year @ lit ''-XYZ-'') (reg_no u)) db) + 1))"
proof -
  let ?users = "filter (\<lambda>u. sql_like_prefix (str_int year @ lit ''-XYZ-'') (reg_no u)) db"
  have "0 \<le> scan_max_suffix U ?users" by (rule scan_max_suffix_nonneg)
  then have "str_int (scan_max_suffix U ?users + 1) = str_nat (nat (scan_max_suffix U ?users + 1))"
    by (simp add: str_int_def)
  then show ?thesis
    unfolding generate_next_reg_no_def Let_def
    by (simp add: lit_prefix zfill_str_nat)
qed

lemma generate_next_reg_no_suffix:
  assumes "0 \<le> year"
  shows "reg_suffix U (generate_next_reg_no U year db)
           = Some (scan_max_suffix U
               (filter (\<lambda>u. sql_like_prefix (str_int year @ lit ''-XYZ-'') (reg_no u)) db) + 1)"
    and "sql_like_prefix (str_int year @ lit ''-XYZ-'') (generate_next_reg_no U year db)"
proof -
  let ?users = "filter (\<lambda>u. sql_like_prefix (str_int year @ lit ''-XYZ-'') (reg_no u)) db"
  have nn: "0 \<le> scan_max_suffix U ?users" by (rule scan_max_suffix_nonneg)
  show "reg_suffix U (generate_next_reg_no U year db) = Some (scan_max_suffix U ?users + 1)"
    unfolding generate_next_reg_no_shape
    using nn by (simp add: reg_suffix_generated [OF assms])
  show "sql_like_prefix (str_int year @ lit ''-XYZ-'') (generate_next_reg_no U year db)"
    unfolding generate_next_reg_no_shape
    using sql_like_prefix_append [of "str_int year @ lit ''-XYZ-''"] by simp
qed

lemma scan_max_suffix_snoc:
  "scan_max_suffix U (users @ [u]) =
     (case reg_suffix U (reg_no u) of
        None \<Rightarrow> scan_max_suffix U users
      | Some s \<Rightarrow> if s > scan_max_suffix U users then s else scan_max_suffix U users)"
  unfolding scan_max_suffix_def by simp

lemma scan_max_suffix_ge:
  assumes "u \<in> set users" and "reg_suffix U (reg_no u) = Some n"
  shows "n \<le> scan_max_suffix U users"
proof -
  have "finite {n. \<exists>u \<in> set users. reg_suffix U (reg_no u) = Some n}"
  proof -
    have "{n. \<exists>u \<in> set users. reg_suffix U (reg_no u) = Some n}
            \<subseteq> (\<lambda>u. the (reg_suffix U (reg_no u))) ` set users" by force
    then show ?thesis by (rule finite_subset) simp
  qed
  moreover have "n \<in> insert 0 {n. \<exists>u \<in> set users. reg_suffix U (reg_no u) = Some n}"
    using assms by auto
  ultimately show ?thesis unfolding scan_max_suffix_Max by (intro Max_ge) auto
qed

text \<open>The number handed out is not in the table, so the commit cannot fail on it.\<close>

lemma generate_next_reg_no_fresh:
  assumes "0 \<le> year" and "u \<in> set db"
  shows "reg_no u \<noteq> generate_next_reg_no U year db"
proof
  assume eq: "reg_no u = generate_next_reg_no U year db"
  let ?users = "filter (\<lambda>u. sql_like_prefix (str_int year @ lit ''-XYZ-'') (reg_no u)) db"
  from generate_next_reg_no_suffix [OF assms(1), of U db] eq
  have "reg_suffix U (reg_no u) = Some (scan_max_suffix U ?users + 1)"
    and "sql_like_prefix (str_int year @ lit ''-XYZ-'') (reg_no u)"
    by simp_all
  with assms(2) have "scan_max_suffix U ?users + 1 \<le> scan_max_suffix U ?users"
    by (intro scan_max_suffix_ge [of u]) auto
  then show False by simp
qed

lemma register_raises_max:
  assumes "0 \<le> year" and "register U year db data = Inr (resp, db')"
  shows "reg_suffix U (resp_reg_no resp)
           = Some (scan_max_suffix U
               (filter (\<lambda>u. sql_like_prefix (str_int year @ lit ''-XYZ-'') (reg_no u)) db) + 1)"
    and "scan_max_suffix U
           (filter (\<lambda>u. sql_like_prefix (str_int year @ lit ''-XYZ-'') (reg_no u)) db')
         = scan_max_suffix U
             (filter (\<lambda>u. sql_like_prefix (str_int year @ lit ''-XYZ-'') (reg_no u)) db) + 1"
proof -
  from register_Inr [OF assms(2)] obtain u where
    u: "db' = db @ [u]" "reg_no u = generate_next_reg_no U year db" "resp_reg_no resp = reg_no u"
    by blast
  note g = generate_next_reg_no_suffix [OF assms(1), of U db]
  from u g(1) show "reg_suffix U (resp_reg_no resp)
           = Some (scan_max_suffix U
               (filter (\<lambda>u. sql_like_prefix (str_int year @ lit ''-XYZ-'') (reg_no u)) db) + 1)"
    by simp
  from u g show "scan_max_suffix U
           (filter (\<lambda>u. sql_like_prefix (str_int year @ lit ''-XYZ-'') (reg_no u)) db')
         = scan_max_suffix U
             (filter (\<lambda>u. sql_like_prefix (str_int year @ lit ''-XYZ-'') (reg_no u)) db) + 1"
    by (simp add: scan_max_suffix_snoc)
qed

lemma register_seq_above_max:
  assumes "0 \<le> year"
  shows "sorted_wrt (\<lambda>a b. \<exists>x y. reg_suffix U a = Some x \<and> reg_suffix U b = Some y \<and> x < y)
           (fst (register_seq U year db reqs))
       \<and> (\<forall>r \<in> set (fst (register_seq U year db reqs)).
            \<exists>x. reg_suffix U r = Some x
              \<and> scan_max_suffix U
                  (filter (\<lambda>u. sql_like_prefix (str_int year @ lit ''-XYZ-'') (reg_no u)) db) < x)"
proof (induction reqs arbitrary: db)
  case Nil
  then show ?case by simp
next
  case (Cons data rest)
  show ?case
  proof (cases "register U year db data")
    case (Inl e)
    with Cons.IH [of db] show ?thesis by simp
  next
    case (Inr p)
    obtain resp db' where p: "p = (resp, db')" by (cases p)
    obtain regs dbf where rs: "register_seq U year db' rest = (regs, dbf)"
      by (cases "register_seq U year db' rest")
    from Inr p have reg: "register U year db data = Inr (resp, db')" by simp
    note m = register_raises_max [OF assms reg]
    from Cons.IH [of db'] rs m(2)
    have ih: "sorted_wrt (\<lambda>a b. \<exists>x y. reg_suffix U a = Some x \<and> reg_suffix U b = Some y \<and> x < y) regs"
      and above: "\<forall>r \<in> set regs. \<exists>x. reg_suffix U r = Some x
              \<and> scan_max_suffix U
                  (filter (\<lambda>u. sql_like_prefix (str_int year @ lit ''-XYZ-'') (reg_no u)) db) + 1 < x"
      by simp_all
    have fst: "fst (register_seq U year db (data # rest)) = resp_reg_no resp # regs"
      using reg rs by simp
    show ?thesis
      unfolding fst using ih above m(1) by fastforce
  qed
qed

lemma sorted_wrt_irrefl_distinct':
  assumes "\<And>a. \<not> R a a" and "sorted_wrt R xs"
  shows "distinct xs"
  using assms(2) by (induction xs) (use assms(1) in auto)

text \<open>
  C7, as stated, fails when a row is deleted between two registrations: after Madonna
  and Ada Lovelace are registered in 2024 and the row \<open>2024-XYZ-0002\<close> is deleted, the
  next registration of the year is handed \<open>2024-XYZ-0002\<close> again, since the scan sees
  only the rows that are left.
\<close>

theorem registration_number_reused_counterexample:
  "register example_lib 2024 [] example_request
     = Inr (\<lparr>resp_reg_no = lit ''2024-XYZ-0001'', resp_email = lit ''madonna@company.com'',
             resp_name = lit ''Madonna''\<rparr>,
            [example_row 1 ''2024-XYZ-0001'' ''Madonna'' ''madonna@company.com''])
   \<and> register example_lib 2024
        [example_row 1 ''2024-XYZ-0001'' ''Madonna'' ''madonna@company.com'']
        (example_request\<lparr>req_name := lit ''Ada Lovelace''\<rparr>)
     = Inr (\<lparr>resp_reg_no = lit ''2024-XYZ-0002'', resp_email = lit ''ada.lovelace@company.com'',
             resp_name = lit ''Ada Lovelace''\<rparr>,
            [example_row 1 ''2024-XYZ-0001'' ''Madonna'' ''madonna@company.com'',
             example_row 2 ''2024-XYZ-0002'' ''Ada Lovelace'' ''ada.lovelace@company.com''])
   \<and> admin_user (2024, 3, 1)
        [example_row 1 ''2024-XYZ-0001'' ''Madonna'' ''madonna@company.com'',
         example_row 2 ''2024-XYZ-0002'' ''Ada Lovelace'' ''ada.lovelace@company.com'']
        DELETE (lit ''2024-XYZ-0002'')
     = Inr (UserDeleted (lit ''User 2024-XYZ-0002 deleted.''),
            [example_row 1 ''2024-XYZ-0001'' ''Madonna'' ''madonna@company.com''])
   \<and> register example_lib 2024
        [example_row 1 ''2024-XYZ-0001'' ''Madonna'' ''madonna@company.com'']
        (example_request\<lparr>req_name := lit ''Grace Hopper''\<rparr>)
     = Inr (\<lparr>resp_reg_no = lit ''2024-XYZ-0002'', resp_email = lit ''grace.hopper@company.com'',
             resp_name = lit ''Grace Hopper''\<rparr>,
            [example_row 1 ''2024-XYZ-0001'' ''Madonna'' ''madonna@company.com'',
             example_row 2 ''2024-XYZ-0002'' ''Grace Hopper'' ''grace.hopper@company.com''])"
  by code_simp

text \<open>
  C7, amended. For any requests served one after the other in the same year with no
  deletion between them (a year that is not negative, as every year of the clock is),
  starting from any table: the numeric suffixes of the registration numbers handed out are
  strictly increasing in the order they are handed out, and no number is handed out twice.
\<close>

theorem registration_numbers_increase:
  assumes "0 \<le> year"
  shows "sorted_wrt (\<lambda>a b. \<exists>x y. reg_suffix U a = Some x \<and> reg_suffix U b = Some y \<and> x < y)
           (fst (register_seq U year db reqs))
       \<and> distinct (fst (register_seq U year db reqs))"
proof -
  from register_seq_above_max [OF assms, of U db reqs]
  have s: "sorted_wrt (\<lambda>a b. \<exists>x y. reg_suffix U a = Some x \<and> reg_suffix U b = Some y \<and> x < y)
           (fst (register_seq U year db reqs))"
    by blast
  then have "distinct (fst (register_seq U year db reqs))"
    by (rule sorted_wrt_irrefl_distinct' [rotated]) auto
  with s show ?thesis by blast
qed

theorem registration_numbers_increase_witness:
  "(0::int) \<le> 2024
   \<and> fst (register_seq example_lib 2024 [] example_requests)
       = [lit ''2024-XYZ-0001'', lit ''2024-XYZ-0002'']
   \<and> sorted_wrt (\<lambda>a b. \<exists>x y. reg_suffix example_lib a = Some x
                            \<and> reg_suffix example_lib b = Some y \<and> x < y)
       [lit ''2024-XYZ-0001'', lit ''2024-XYZ-0002'']
   \<and> distinct [lit ''2024-XYZ-0001'', lit ''2024-XYZ-0002'']"
proof -
  have y: "(0::int) \<le> 2024" by simp
  have e: "fst (register_seq example_lib 2024 [] example_requests)
       = [lit ''2024-XYZ-0001'', lit ''2024-XYZ-0002'']"
    by code_simp
  from registration_numbers_increase [OF y, of example_lib "[]" example_requests]
  show ?thesis unfolding e using y by blast
qed

subsection \<open>Generated emails\<close>

lemma split_ws_tokens:
  assumes "\<forall>c \<in> set cur. \<not> py_isspace c" and "w \<in> set (split_ws cur s)"
  shows "w \<noteq> [] \<and> set w \<subseteq> set cur \<union> set s \<and> (\<forall>c \<in> set w. \<not> py_isspace c)"
  using assms
proof (induction s arbitrary: cur)
  case Nil
  from Nil.prems(2) have "w = cur" and "cur \<noteq> []"
    by (simp_all split: if_splits)
  with Nil.prems(1) show ?case by simp
next
  case (Cons c s)
  show ?case
  proof (cases "py_isspace c")
    case True
    with Cons.prems(2) have "w \<in> set (if cur = [] then [] else [cur]) \<or> w \<in> set (split_ws [] s)"
      by simp
    then show ?thesis
    proof
      assume "w \<in> set (if cur = [] then [] else [cur])"
      then have "w = cur" and "cur \<noteq> []" by (simp_all split: if_splits)
      with Cons.prems(1) show ?thesis by auto
    next
      assume a: "w \<in> set (split_ws [] s)"
      have "\<forall>c \<in> set []. \<not> py_isspace c" by simp
      from Cons.IH [OF this a] show ?thesis by auto
    qed
  next
    case False
    with Cons.prems(2) have a: "w \<in> set (split_ws (cur @ [c]) s)" by simp
    from False Cons.prems(1) have b: "\<forall>c \<in> set (cur @ [c]). \<not> py_isspace c" by simp
    from Cons.IH [OF b a] show ?thesis by auto
  qed
qed

lemma normalize_name_parts:
  assumes "p \<in> set (normalize_name U name')"
  shows "p \<noteq> [] \<and> (\<forall>c \<in> set p. 97 \<le> c \<and> c \<le> 122)"
proof -
  let ?s = "filter (\<lambda>c. (97 \<le> c \<and> c \<le> 122) \<or> py_isspace c)
              (filter (\<lambda>c. c < 128) (py_nfd U (py_lower U (py_strip name'))))"
  from assms have "p \<in> set (split_ws [] ?s)"
    by (simp add: normalize_name_def py_split_def Let_def)
  from split_ws_tokens [OF _ this]
  have "p \<noteq> []" and sub: "set p \<subseteq> set ?s" and ns: "\<forall>c \<in> set p. \<not> py_isspace c"
    by auto
  from sub ns have "\<forall>c \<in> set p. 97 \<le> c \<and> c \<le> 122" by auto
  with \<open>p \<noteq> []\<close> show ?thesis by simp
qed

lemma normalize_name_empty: "normalize_name U [] = []"
  by (simp add: normalize_name_def py_split_def py_strip_def py_lower_def py_nfd_def is_ascii_def)

lemma py_lower_ascii_lowercase:
  assumes "\<forall>c \<in> set s. c < 128 \<and> \<not> (65 \<le> c \<and> c \<le> 90)"
  shows "py_lower U s = s"
proof -
  from assms have "is_ascii s" by (auto simp: is_ascii_def list_all_iff)
  moreover from assms have "map ascii_lower s = s"
    by (intro map_idI) (auto simp: ascii_lower_def)
  ultimately show ?thesis by (simp add: py_lower_def)
qed

text \<open>The candidate with counter k, as the loop body builds it.\<close>

lemma candidate_lower:
  assumes "\<forall>p \<in> set parts. \<forall>c \<in> set p. 97 \<le> c \<and> c \<le> 122" and "parts \<noteq> []"
    and "\<forall>c \<in> set mid. is_digit c"
  shows "py_lower U ((if length parts = 1 then parts ! 0 else parts ! 0 @ lit ''.'' @ last parts)
            @ mid @ lit ''@company.com'')
       = (if length parts = 1 then parts ! 0 else parts ! 0 @ lit ''.'' @ last parts)
            @ mid @ lit ''@company.com''"
proof -
  define ok :: "nat \<Rightarrow> bool" where "ok c = (c < 128 \<and> \<not> (65 \<le> c \<and> c \<le> 90))" for c
  have letter: "ok c" if "97 \<le> c \<and> c \<le> 122" for c
    using that unfolding ok_def by linarith
  have digit: "ok c" if "is_digit c" for c
    using that unfolding ok_def is_digit_def by linarith
  from assms(2) have "parts ! 0 \<in> set parts" and "last parts \<in> set parts"
    by simp_all
  with assms(1) have p0: "\<forall>c \<in> set (parts ! 0). ok c"
    and pl: "\<forall>c \<in> set (last parts). ok c"
    using letter by blast+
  have t: "\<forall>c \<in> set (lit ''@company.com''). ok c" "\<forall>c \<in> set (lit ''.''). ok c"
    by (simp_all add: lit_def ok_def)
  from assms(3) have m: "\<forall>c \<in> set mid. ok c"
    using digit by blast
  have "\<forall>c \<in> set ((if length parts = 1 then parts ! 0 else parts ! 0 @ lit ''.'' @ last parts)
            @ mid @ lit ''@company.com''). ok c"
    using p0 pl t m by (simp add: ball_Un)
  then show ?thesis unfolding ok_def by (rule py_lower_ascii_lowercase)
qed

lemma email_loop_finds:
  assumes mk: "\<And>j. mk j =
                 (if length parts = 1
                  then parts ! 0 @ str_nat j @ lit ''@company.com''
                  else parts ! 0 @ lit ''.'' @ last parts @ str_nat j @ lit ''@company.com'')"
      and "py_lower U cand \<in> set E"
      and "n \<le> k"
      and "\<forall>j. n \<le> j \<and> j < k \<longrightarrow> py_lower U (mk j) \<in> set E"
      and "py_lower U (mk k) \<notin> set E"
  shows "email_loop U E parts cand n = Some (mk k)"
proof -
  have step: "email_loop U E parts c m =
                (if py_lower U c \<in> set E then email_loop U E parts (mk m) (m + 1) else Some c)"
    for c m
    unfolding mk by (rule email_loop.simps)
  from assms(2-5) show ?thesis
  proof (induction "k - n" arbitrary: n cand)
    case 0
    then have nk: "n = k" by simp
    have "email_loop U E parts cand k = email_loop U E parts (mk k) (k + 1)"
      using "0.prems"(1) by (subst step) simp
    also have "\<dots> = Some (mk k)"
      using "0.prems"(4) by (subst step) simp
    finally show ?case unfolding nk .
  next
    case (Suc d)
    then have lt: "n < k" by simp
    from Suc.prems(3) lt have cn: "py_lower U (mk n) \<in> set E" by simp
    have "email_loop U E parts cand n = email_loop U E parts (mk n) (n + 1)"
      using Suc.prems(1) by (subst step) simp
    also have "\<dots> = Some (mk k)"
    proof (rule Suc.hyps(1))
      show "d = k - (n + 1)" using Suc.hyps(2) by simp
      show "py_lower U (mk n) \<in> set E" by (rule cn)
      show "n + 1 \<le> k" using lt by simp
      show "\<forall>j. n + 1 \<le> j \<and> j < k \<longrightarrow> py_lower U (mk j) \<in> set E"
        using Suc.prems(3) by simp
      show "py_lower U (mk k) \<notin> set E" by (rule Suc.prems(4))
    qed
    finally show ?case .
  qed
qed

lemma email_loop_stops: "py_lower U cand \<notin> set E \<Longrightarrow> email_loop U E parts cand n = Some cand"
  by (subst email_loop.simps) simp

lemma unused_counter_exists:
  assumes "inj (f :: nat \<Rightarrow> 'a)"
  shows "\<exists>k \<ge> n. f k \<notin> set E"
proof (rule ccontr)
  assume "\<not> (\<exists>k \<ge> n. f k \<notin> set E)"
  then have "f ` {n..} \<subseteq> set E" by auto
  then have "finite (f ` {n..})" by (rule finite_subset) simp
  moreover have "inj_on f {n..}" using assms by (rule inj_on_subset) simp
  ultimately have "finite {n..}" by (rule finite_imageD)
  then show False by (simp add: infinite_Ici)
qed

lemma generate_email_loop:
  assumes "normalize_name U name' \<noteq> []"
  shows "generate_email U db name' =
           email_loop U (map (\<lambda>u. py_lower U (email u)) db) (normalize_name U name')
             ((if length (normalize_name U name') = 1 then normalize_name U name' ! 0
               else normalize_name U name' ! 0 @ lit ''.'' @ last (normalize_name U name'))
              @ lit ''@company.com'') 1"
proof -
  from assms have "name' \<noteq> []" using normalize_name_empty by auto
  with assms show ?thesis by (simp add: generate_email_def Let_def)
qed

lemma generate_email_unique_suffix:
  assumes ne: "normalize_name U name' \<noteq> []"
  shows "\<exists>k.
     (let parts = normalize_name U name';
          stem = (if length parts = 1 then parts ! 0 else parts ! 0 @ lit ''.'' @ last parts);
          stored = (\<lambda>u. py_lower U (email u)) ` set db
      in (\<forall>p \<in> set parts. p \<noteq> [] \<and> (\<forall>c \<in> set p. 97 \<le> c \<and> c \<le> 122))
       \<and> generate_email U db name' =
            Some (if k = 0 then stem @ lit ''@company.com''
                  else stem @ str_nat k @ lit ''@company.com'')
       \<and> py_lower U (if k = 0 then stem @ lit ''@company.com''
                       else stem @ str_nat k @ lit ''@company.com'') \<notin> stored
       \<and> (0 < k \<longrightarrow> py_lower U (stem @ lit ''@company.com'') \<in> stored)
       \<and> (\<forall>j. 0 < j \<and> j < k \<longrightarrow> py_lower U (stem @ str_nat j @ lit ''@company.com'') \<in> stored))"
proof -
  define parts where "parts = normalize_name U name'"
  define stem where
    "stem = (if length parts = 1 then parts ! 0 else parts ! 0 @ lit ''.'' @ last parts)"
  define E where "E = map (\<lambda>u. py_lower U (email u)) db"
  define mk where "mk j = stem @ str_nat j @ lit ''@company.com''" for j
  have pne: "parts \<noteq> []" using ne by (simp add: parts_def)
  have letters: "\<forall>p \<in> set parts. p \<noteq> [] \<and> (\<forall>c \<in> set p. 97 \<le> c \<and> c \<le> 122)"
    using normalize_name_parts unfolding parts_def by blast
  have mk_eq: "mk j =
                 (if length parts = 1
                  then parts ! 0 @ str_nat j @ lit ''@company.com''
                  else parts ! 0 @ lit ''.'' @ last parts @ str_nat j @ lit ''@company.com'')"
    for j
    by (simp add: mk_def stem_def)
  have ge: "generate_email U db name' = email_loop U E parts (stem @ lit ''@company.com'') 1"
    using generate_email_loop [OF ne, of db] by (simp add: parts_def stem_def E_def)
  have setE: "set E = (\<lambda>u. py_lower U (email u)) ` set db"
    by (simp add: E_def)
  have low: "py_lower U (mk j) = mk j" for j
  proof -
    have "\<forall>c \<in> set (str_nat j). is_digit c" using str_nat_digits by blast
    from candidate_lower [OF _ pne this] letters show ?thesis
      unfolding mk_def stem_def by blast
  qed
  have inj: "inj (\<lambda>j. py_lower U (mk j))"
  proof (rule injI)
    fix a b assume "py_lower U (mk a) = py_lower U (mk b)"
    then have "mk a = mk b" by (simp add: low)
    then have "str_nat a = str_nat b" by (simp add: mk_def)
    then show "a = b" by (rule str_nat_inj)
  qed
  have "\<exists>k.
        generate_email U db name' =
            Some (if k = 0 then stem @ lit ''@company.com'' else mk k)
       \<and> py_lower U (if k = 0 then stem @ lit ''@company.com'' else mk k) \<notin> set E
       \<and> (0 < k \<longrightarrow> py_lower U (stem @ lit ''@company.com'') \<in> set E)
       \<and> (\<forall>j. 0 < j \<and> j < k \<longrightarrow> py_lower U (mk j) \<in> set E)"
  proof (cases "py_lower U (stem @ lit ''@company.com'') \<in> set E")
    case False
    then have "generate_email U db name' = Some (stem @ lit ''@company.com'')"
      unfolding ge by (rule email_loop_stops)
    with False show ?thesis by (intro exI [of _ 0]) simp
  next
    case True
    from unused_counter_exists [OF inj, of 1 E]
    obtain k0 where k0: "1 \<le> k0" "py_lower U (mk k0) \<notin> set E" by blast
    define k where "k = (LEAST k. 1 \<le> k \<and> py_lower U (mk k) \<notin> set E)"
    from k0 have kP: "1 \<le> k \<and> py_lower U (mk k) \<notin> set E"
      unfolding k_def by (intro LeastI [of "\<lambda>k. 1 \<le> k \<and> py_lower U (mk k) \<notin> set E" k0]) simp
    have below: "\<forall>j. 1 \<le> j \<and> j < k \<longrightarrow> py_lower U (mk j) \<in> set E"
    proof (intro allI impI)
      fix j assume j: "1 \<le> j \<and> j < k"
      then have "\<not> (1 \<le> j \<and> py_lower U (mk j) \<notin> set E)"
        unfolding k_def using not_less_Least by blast
      with j show "py_lower U (mk j) \<in> set E" by simp
    qed
    from kP have "1 \<le> k" and "py_lower U (mk k) \<notin> set E" by simp_all
    with email_loop_finds [of mk parts U "stem @ lit ''@company.com''" E 1 k, OF mk_eq True] below
    have "generate_email U db name' = Some (mk k)"
      unfolding ge by blast
    with kP below True show ?thesis
      by (intro exI [of _ k]) auto
  qed
  then show ?thesis
    using letters unfolding Let_def setE parts_def [symmetric] stem_def [symmetric] mk_def
    by blast
qed

text \<open>
  C5. For a name that has at least one token, \<open>generate_email\<close> returns an address
  built as follows. The name is stripped and put in lower case, decomposed (NFD) and
  reduced to its ASCII code points, which drops the diacritics; of these only the letters
  a to z and white space are kept, and the tokens are the runs between white space, each a
  non-empty run of letters. The stem is the only token, or the first and the last token
  with a dot between them. The address is the stem and \<open>@company.com\<close> unless that
  collides, without regard to case, with a stored email; then it is the stem, the least
  counter \<open>k \<ge> 1\<close> for which the address does not collide, and \<open>@company.com\<close>. The
  loop always ends, and the address returned collides with no stored email.
  "Madonna" gives \<open>madonna@company.com\<close>, and \<open>madonna1@company.com\<close> when that is
  taken; "Ada Lovelace" gives \<open>ada.lovelace@company.com\<close>.
\<close>

theorem generated_email:
  assumes "normalize_name U name' \<noteq> []"
  shows "(\<exists>k.
     (let parts = normalize_name U name';
          stem = (if length parts = 1 then parts ! 0 else parts ! 0 @ lit ''.'' @ last parts);
          stored = (\<lambda>u. py_lower U (email u)) ` set db
      in (\<forall>p \<in> set parts. p \<noteq> [] \<and> (\<forall>c \<in> set p. 97 \<le> c \<and> c \<le> 122))
       \<and> generate_email U db name' =
            Some (if k = 0 then stem @ lit ''@company.com''
                  else stem @ str_nat k @ lit ''@company.com'')
       \<and> py_lower U (if k = 0 then stem @ lit ''@company.com''
                       else stem @ str_nat k @ lit ''@company.com'') \<notin> stored
       \<and> (0 < k \<longrightarrow> py_lower U (stem @ lit ''@company.com'') \<in> stored)
       \<and> (\<forall>j. 0 < j \<and> j < k \<longrightarrow> py_lower U (stem @ str_nat j @ lit ''@company.com'') \<in> stored)))
    \<and> generate_email U [] (lit ''Madonna'') = Some (lit ''madonna@company.com'')
    \<and> generate_email U [example_user\<lparr>email := lit ''Madonna@Company.com''\<rparr>] (lit ''Madonna'')
         = Some (lit ''madonna1@company.com'')
    \<and> generate_email U [] (lit ''Ada Lovelace'') = Some (lit ''ada.lovelace@company.com'')"
proof -
  have e1: "generate_email U [] (lit ''Madonna'') = Some (lit ''madonna@company.com'')"
    by code_simp
  have e2: "generate_email U [example_user\<lparr>email := lit ''Madonna@Company.com''\<rparr>] (lit ''Madonna'')
         = Some (lit ''madonna1@company.com'')"
    by code_simp
  have e3: "generate_email U [] (lit ''Ada Lovelace'') = Some (lit ''ada.lovelace@company.com'')"
    by code_simp
  from generate_email_unique_suffix [OF assms, of db] e1 e2 e3 show ?thesis by blast
qed

theorem generated_email_witness:
  "normalize_name example_lib ([74, 111, 115, 201] @ lit ''  de la Cruz-3 '')
     = [lit ''jose'', lit ''de'', lit ''la'', lit ''cruz'']
   \<and> generate_email example_lib
        [example_user\<lparr>email := lit ''Jose.Cruz@company.com''\<rparr>,
         example_user\<lparr>email := lit ''jose.cruz1@COMPANY.com''\<rparr>]
        ([74, 111, 115, 201] @ lit ''  de la Cruz-3 '')
       = Some (lit ''jose.cruz2@company.com'')
   \<and> py_lower example_lib (lit ''jose.cruz2@company.com'')
       \<notin> (\<lambda>u. py_lower example_lib (email u)) `
            set [example_user\<lparr>email := lit ''Jose.Cruz@company.com''\<rparr>,
                 example_user\<lparr>email := lit ''jose.cruz1@COMPANY.com''\<rparr>]"
proof -
  have n: "normalize_name example_lib ([74, 111, 115, 201] @ lit ''  de la Cruz-3 '')
     = [lit ''jose'', lit ''de'', lit ''la'', lit ''cruz'']"
    by code_simp
  then have ne: "normalize_name example_lib ([74, 111, 115, 201] @ lit ''  de la Cruz-3 '') \<noteq> []"
    by simp
  have e: "generate_email example_lib
        [example_user\<lparr>email := lit ''Jose.Cruz@company.com''\<rparr>,
         example_user\<lparr>email := lit ''jose.cruz1@COMPANY.com''\<rparr>]
        ([74, 111, 115, 201] @ lit ''  de la Cruz-3 '')
       = Some (lit ''jose.cruz2@company.com'')"
    by code_simp
  from generated_email [OF ne,
    of "[example_user\<lparr>email := lit ''Jose.Cruz@company.com''\<rparr>,
         example_user\<lparr>email := lit ''jose.cruz1@COMPANY.com''\<rparr>]"]
  have "\<exists>x. generate_email example_lib
        [example_user\<lparr>email := lit ''Jose.Cruz@company.com''\<rparr>,
         example_user\<lparr>email := lit ''jose.cruz1@COMPANY.com''\<rparr>]
        ([74, 111, 115, 201] @ lit ''  de la Cruz-3 '') = Some x
      \<and> py_lower example_lib x
          \<notin> (\<lambda>u. py_lower example_lib (email u)) `
            set [example_user\<lparr>email := lit ''Jose.Cruz@company.com''\<rparr>,
                 example_user\<lparr>email := lit ''jose.cruz1@COMPANY.com''\<rparr>]"
    unfolding Let_def by blast
  with e have "py_lower example_lib (lit ''jose.cruz2@company.com'')
       \<notin> (\<lambda>u. py_lower example_lib (email u)) `
            set [example_user\<lparr>email := lit ''Jose.Cruz@company.com''\<rparr>,
                 example_user\<lparr>email := lit ''jose.cruz1@COMPANY.com''\<rparr>]"
    by auto
  with n e show ?thesis by blast
qed

subsection \<open>Names without a token\<close>

lemma generate_email_no_token:
  "normalize_name U name' = [] \<Longrightarrow> generate_email U db name' = Some []"
  by (simp add: generate_email_def Let_def)

text \<open>
  C9, as stated, fails: the name "123" has no token, \<open>generate_email\<close> returns the
  empty string for it and raises nothing, and \<open>register\<close> on the empty table accepts the
  request and stores a row whose email is empty.
\<close>

theorem empty_name_registered_counterexample:
  "normalize_name example_lib (lit ''123'') = []
   \<and> generate_email example_lib [] (lit ''123'') = Some []
   \<and> register example_lib 2024 [] (example_request\<lparr>req_name := lit ''123''\<rparr>)
       = Inr (\<lparr>resp_reg_no = lit ''2024-XYZ-0001'', resp_email = [], resp_name = lit ''123''\<rparr>,
              [\<lparr>user_id = 1, reg_no = lit ''2024-XYZ-0001'', name = lit ''123'',
                dob = (1958, 8, 16), gender = lit ''F'', email = [],
                attendance_count = 0, leaves_taken = 0, last_leave_month = None,
                messages = Some [], face_image = lit ''img''\<rparr>])"
  by code_simp

lemma split_ws_blank: "\<forall>c \<in> set s. py_isspace c \<Longrightarrow> split_ws [] s = []"
  by (induction s) auto

lemma set_py_strip: "set (py_strip s) \<subseteq> set s"
proof
  fix c assume "c \<in> set (py_strip s)"
  then have "c \<in> set (dropWhile py_isspace (rev (dropWhile py_isspace s)))"
    by (simp add: py_strip_def)
  then have "c \<in> set (rev (dropWhile py_isspace s))" by (rule set_dropWhileD)
  then have "c \<in> set (dropWhile py_isspace s)" by simp
  then show "c \<in> set s" by (rule set_dropWhileD)
qed

lemma no_letters_no_token:
  assumes "\<forall>c \<in> set name'. c < 128 \<and> \<not> (65 \<le> c \<and> c \<le> 90) \<and> \<not> (97 \<le> c \<and> c \<le> 122)"
  shows "normalize_name U name' = []"
proof -
  let ?s = "py_strip name'"
  from assms set_py_strip [of name']
  have s: "\<forall>c \<in> set ?s. c < 128 \<and> \<not> (65 \<le> c \<and> c \<le> 90) \<and> \<not> (97 \<le> c \<and> c \<le> 122)"
    by blast
  then have "\<forall>c \<in> set ?s. c < 128 \<and> \<not> (65 \<le> c \<and> c \<le> 90)" by blast
  then have low: "py_lower U ?s = ?s"
    by (rule py_lower_ascii_lowercase)
  from s have asc: "is_ascii ?s"
    by (simp add: is_ascii_def list_all_iff)
  then have nfd: "py_nfd U ?s = ?s" by (simp add: py_nfd_def)
  from s have f1: "filter (\<lambda>c. c < 128) ?s = ?s"
    by (simp add: filter_id_conv)
  have blank: "\<forall>c \<in> set (filter (\<lambda>c. (97 \<le> c \<and> c \<le> 122) \<or> py_isspace c) ?s). py_isspace c"
    using s by auto
  show ?thesis
    unfolding normalize_name_def Let_def py_split_def low nfd f1
    using blank by (rule split_ws_blank)
qed

text \<open>
  C9, amended. For a name that normalizes to no token \<open>generate_email\<close> returns the
  empty string and raises no error; a name of ASCII characters none of which is a letter
  is such a name.
\<close>

theorem no_token_empty_email:
  "(normalize_name U name' = [] \<longrightarrow> generate_email U db name' = Some [])
   \<and> ((\<forall>c \<in> set name'. c < 128 \<and> \<not> (65 \<le> c \<and> c \<le> 90) \<and> \<not> (97 \<le> c \<and> c \<le> 122))
        \<longrightarrow> normalize_name U name' = [] \<and> generate_email U db name' = Some [])"
  using generate_email_no_token no_letters_no_token by blast

theorem no_token_empty_email_witness:
  "normalize_name example_lib (lit ''123'') = []
   \<and> generate_email example_lib [example_user] (lit ''123'') = Some []
   \<and> list_all (\<lambda>c. c < 128 \<and> \<not> (65 \<le> c \<and> c \<le> 90) \<and> \<not> (97 \<le> c \<and> c \<le> 122))
        (lit ''- 42 -'')
   \<and> normalize_name example_lib (lit ''- 42 -'') = []
   \<and> generate_email example_lib [example_user] (lit ''- 42 -'') = Some []"
proof -
  have n: "normalize_name example_lib (lit ''123'') = []"
    by code_simp
  have a: "list_all (\<lambda>c. c < 128 \<and> \<not> (65 \<le> c \<and> c \<le> 90) \<and> \<not> (97 \<le> c \<and> c \<le> 122))
        (lit ''- 42 -'')"
    by code_simp
  then have a': "\<forall>c \<in> set (lit ''- 42 -''). c < 128 \<and> \<not> (65 \<le> c \<and> c \<le> 90) \<and> \<not> (97 \<le> c \<and> c \<le> 122)"
    unfolding list_all_iff .
  from no_token_empty_email [of example_lib "lit ''123''" "[example_user]"] n
  have r1: "generate_email example_lib [example_user] (lit ''123'') = Some []"
    by blast
  from no_token_empty_email [of example_lib "lit ''- 42 -''" "[example_user]"] a'
  have r2: "normalize_name example_lib (lit ''- 42 -'') = []
            \<and> generate_email example_lib [example_user] (lit ''- 42 -'') = Some []"
    by blast
  from n a r1 r2 show ?thesis by blast
qed

lemma generate_email_returns: "\<exists>e. generate_email U db name' = Some e"
proof (cases "normalize_name U name' = []")
  case True
  then show ?thesis by (simp add: generate_email_no_token)
next
  case False
  from generate_email_unique_suffix [OF False, of db] show ?thesis
    unfolding Let_def by blast
qed

lemma register_never_diverges: "register U year db data \<noteq> Inl Diverges"
  using generate_email_returns [of U db "py_strip (req_name data)"]
  by (auto simp: register_def Let_def split: option.splits)

lemma generate_email_ascii:
  assumes "generate_email U db name' = Some e"
  shows "is_ascii e"
proof (cases "normalize_name U name' = []")
  case True
  with assms show ?thesis by (simp add: generate_email_no_token is_ascii_def)
next
  case False
  let ?parts = "normalize_name U name'"
  let ?stem = "if length ?parts = 1 then ?parts ! 0 else ?parts ! 0 @ lit ''.'' @ last ?parts"
  from generate_email_unique_suffix [OF False, of db] assms
  obtain k where
    letters: "\<forall>p \<in> set ?parts. p \<noteq> [] \<and> (\<forall>c \<in> set p. 97 \<le> c \<and> c \<le> 122)" and
    e: "e = (if k = 0 then ?stem @ lit ''@company.com''
             else ?stem @ str_nat k @ lit ''@company.com'')"
    unfolding Let_def by auto
  from False have "?parts ! 0 \<in> set ?parts" and "last ?parts \<in> set ?parts"
    by simp_all
  with letters have "\<forall>c \<in> set (?parts ! 0). 97 \<le> c \<and> c \<le> 122"
    and "\<forall>c \<in> set (last ?parts). 97 \<le> c \<and> c \<le> 122"
    by blast+
  then have "is_ascii (?parts ! 0)" and "is_ascii (last ?parts)"
    unfolding is_ascii_def list_all_iff by fastforce+
  then have stem: "is_ascii ?stem"
    by (simp add: is_ascii_def lit_def)
  have "\<forall>c \<in> set (str_nat k). is_digit c" using str_nat_digits by blast
  then have dig: "is_ascii (str_nat k)"
    unfolding is_ascii_def list_all_iff is_digit_def by fastforce
  have at: "is_ascii (lit ''@company.com'')"
    by (simp add: is_ascii_def lit_def)
  from stem dig at have "is_ascii (?stem @ lit ''@company.com'')"
    and "is_ascii (?stem @ str_nat k @ lit ''@company.com'')"
    by (simp_all add: is_ascii_def)
  with e show ?thesis by simp
qed

text \<open>The commit of \<open>register\<close> never breaks a \<open>unique\<close> column.\<close>

lemma register_commit_succeeds:
  assumes "0 \<le> year"
  shows "register U year db data \<noteq> Inl (Uncaught IntegrityError)"
proof
  assume r: "register U year db data = Inl (Uncaught IntegrityError)"
  then obtain e where
    g: "generate_email U db (py_strip (req_name data)) = Some e" and
    chk: "\<not> (\<exists>u \<in> set db. sql_lower (email u) = py_lower U e)" and
    bad: "\<exists>u \<in> set db. reg_no u = generate_next_reg_no U year db \<or> email u = e"
    by (auto simp: register_def Let_def split: if_splits option.splits)
  from generate_email_ascii [OF g] have "py_lower U e = sql_lower e"
    by (simp add: py_lower_def sql_lower_def)
  with chk have "\<forall>u \<in> set db. email u \<noteq> e" by auto
  with bad generate_next_reg_no_fresh [OF assms] show False by blast
qed

end
